(* ===== verification/BR_Prelude.thy ===== *)
theory BR_Prelude
  imports Main "HOL-Library.Word"
begin

text \<open>
  Shared vocabulary of the development: machine types of the Go sources, the error
  values the handlers return, Go maps and the order in which a \<open>range\<close> loop visits
  them, decimal printing, and the interfaces the services share: keyed stores, step
  relations with an invariant, a measure or a part that moves on its own, and encodings sent line by line.
\<close>

section \<open>Types and errors\<close>

type_synonym u64 = "64 word"
type_synonym u32 = "32 word"
type_synonym byte = "8 word"
type_synonym bytes = "byte list"

text \<open>gRPC status codes the sources use.\<close>

datatype grpc_code = Internal | NotFound | InvalidArgument

text \<open>
  A Go \<open>error\<close> value: a gRPC status, an \<open>errors.New\<close> text, a failed system call, or
  an error handed on from the database driver.
\<close>

datatype go_error =
    StatusError grpc_code string
  | PlainError string
  | SysError string
  | SqlError string

text \<open>The text of an error, as the \<open>%v\<close> verb and \<open>Error()\<close> print it.\<close>

definition code_name :: "grpc_code \<Rightarrow> string" where
  "code_name c = (case c of Internal \<Rightarrow> ''Internal'' | NotFound \<Rightarrow> ''NotFound''
                          | InvalidArgument \<Rightarrow> ''InvalidArgument'')"

fun err_text :: "go_error \<Rightarrow> string" where
  "err_text (StatusError c t) = ''rpc error: code = '' @ code_name c @ '' desc = '' @ t"
| "err_text (PlainError t) = t"
| "err_text (SysError t) = t"
| "err_text (SqlError t) = t"

definition errv :: "go_error option \<Rightarrow> string" where
  "errv e = (case e of None \<Rightarrow> ''<nil>'' | Some x \<Rightarrow> err_text x)"

text \<open>
  A handler returns a pointer and an error, each possibly \<open>nil\<close>. A call through a
  client stub yields either an error or the response message.
\<close>

type_synonym 'a ret = "'a option \<times> go_error option"
type_synonym 'a rpc = "go_error + 'a"

text \<open>
  How a call ends: it returns, or the process ends in \<open>log.Fatalf\<close>, or the goroutine
  ends in \<open>runtime.Goexit\<close>.
\<close>

datatype 'a outcome = Return 'a | Fatal string | Goexit

text \<open>What a caller receives from a handler over gRPC, and how the stub hands it to Go code.\<close>

definition client_sees :: "'a ret \<Rightarrow> 'a rpc" where
  "client_sees r =
     (case r of
        (_, Some e) \<Rightarrow> Inl e
      | (Some x, None) \<Rightarrow> Inr x
      | (None, None) \<Rightarrow> Inl (StatusError Internal ''grpc: error while marshaling''))"

definition stub_ret :: "'a rpc \<Rightarrow> 'a ret" where
  "stub_ret a = (case a of Inl e \<Rightarrow> (None, Some e) | Inr x \<Rightarrow> (Some x, None))"

text \<open>A call gets the handler's answer, or fails on the way.\<close>

definition answered :: "'a rpc \<Rightarrow> 'a ret \<Rightarrow> bool" where
  "answered a r \<longleftrightarrow> a = client_sees r \<or> (\<exists>e. a = Inl e)"

named_theorems br_frame \<open>fields an operation leaves alone\<close>

section \<open>Go maps\<close>

text \<open>
  A Go map is a partial function. A \<open>range\<close> loop visits its keys once each in an
  order the runtime picks anew every time; operations that range over a map take that
  order as an argument.
\<close>

definition map_order :: "'k list \<Rightarrow> ('k \<rightharpoonup> 'v) \<Rightarrow> bool" where
  "map_order ks m \<longleftrightarrow> distinct ks \<and> set ks = dom m"

lemma map_orderD [dest]:
  assumes "map_order ks m"
  shows "distinct ks" and "set ks = dom m"
  using assms by (simp_all add: map_order_def)

lemma map_order_empty [simp]: "map_order ks Map.empty \<longleftrightarrow> ks = []"
  by (auto simp: map_order_def)

lemma map_order_lookup: "map_order ks m \<Longrightarrow> k \<in> set ks \<longleftrightarrow> (\<exists>v. m k = Some v)"
  by (auto simp: map_order_def)

text \<open>Reading a key that is not there yields the zero value of the element type.\<close>

definition lookup_list :: "('k \<rightharpoonup> 'v list) \<Rightarrow> 'k \<Rightarrow> 'v list" where
  "lookup_list m k = (case m k of None \<Rightarrow> [] | Some vs \<Rightarrow> vs)"

definition lookup_bool :: "('k \<rightharpoonup> bool) \<Rightarrow> 'k \<Rightarrow> bool" where
  "lookup_bool m k = (case m k of None \<Rightarrow> False | Some b \<Rightarrow> b)"

definition lookup_u64 :: "('k \<rightharpoonup> u64) \<Rightarrow> 'k \<Rightarrow> u64" where
  "lookup_u64 m k = (case m k of None \<Rightarrow> 0 | Some v \<Rightarrow> v)"

lemma lookup_list_simps [simp]:
  "m k = None \<Longrightarrow> lookup_list m k = []"
  "m k = Some vs \<Longrightarrow> lookup_list m k = vs"
  by (simp_all add: lookup_list_def)

lemma lookup_list_upd [simp]:
  "lookup_list (m(k \<mapsto> vs)) k' = (if k' = k then vs else lookup_list m k')"
  by (simp add: lookup_list_def)

lemma lookup_list_empty [simp]: "lookup_list Map.empty k = []"
  by (simp add: lookup_list_def)

lemma lookup_bool_simps [simp]:
  "lookup_bool Map.empty k = False"
  "lookup_bool (m(k \<mapsto> b)) k' = (if k' = k then b else lookup_bool m k')"
  by (simp_all add: lookup_bool_def)

lemma lookup_u64_simps [simp]:
  "lookup_u64 Map.empty k = 0"
  "lookup_u64 (m(k \<mapsto> v)) k' = (if k' = k then v else lookup_u64 m k')"
  by (simp_all add: lookup_u64_def)

section \<open>Decimal numbers\<close>

text \<open>
  \<open>strconv.FormatUint(n, 10)\<close>, \<open>strconv.Itoa\<close> and the \<open>%d\<close> verb print decimal
  digits. The reader \<open>undec\<close> is the specification they are checked against.
\<close>

definition digit_char :: "nat \<Rightarrow> char" where
  "digit_char d = char_of (48 + d)"

fun dec :: "nat \<Rightarrow> string" where
  "dec n = (if n < 10 then [digit_char n] else dec (n div 10) @ [digit_char (n mod 10)])"

declare dec.simps [simp del]

definition FormatUint :: "u64 \<Rightarrow> string" where
  "FormatUint n = dec (unat n)"

definition Itoa :: "int \<Rightarrow> string" where
  "Itoa i = (if i < 0 then ''-'' @ dec (nat (- i)) else dec (nat i))"

definition undec :: "string \<Rightarrow> nat" where
  "undec = foldl (\<lambda>a c. a * 10 + (of_char c - 48)) 0"

definition is_digit :: "char \<Rightarrow> bool" where
  "is_digit c \<longleftrightarrow> 48 \<le> (of_char c :: nat) \<and> (of_char c :: nat) \<le> 57"

lemma of_char_digit [simp]: "d < 10 \<Longrightarrow> of_char (digit_char d) = 48 + d"
  by (simp add: digit_char_def)

lemma digit_char_numerals [simp]:
  "digit_char 0 = CHR ''0''" "digit_char (Suc 0) = CHR ''1''" "digit_char 1 = CHR ''1''"
  "digit_char 2 = CHR ''2''" "digit_char 3 = CHR ''3''" "digit_char 4 = CHR ''4''"
  "digit_char 5 = CHR ''5''" "digit_char 6 = CHR ''6''" "digit_char 7 = CHR ''7''"
  "digit_char 8 = CHR ''8''" "digit_char 9 = CHR ''9''"
  by code_simp+

lemma undec_snoc: "undec (s @ [c]) = undec s * 10 + (of_char c - 48)"
  by (simp add: undec_def)

lemma undec_dec [simp]: "undec (dec n) = n"
proof (induction n rule: dec.induct)
  case (1 n)
  show ?case
  proof (cases "n < 10")
    case True
    then show ?thesis by (subst dec.simps) (simp add: undec_def)
  next
    case False
    with 1 have "undec (dec (n div 10)) = n div 10" by simp
    with False show ?thesis by (subst dec.simps) (simp add: undec_snoc)
  qed
qed

lemma dec_inj [simp]: "dec m = dec n \<longleftrightarrow> m = n"
  by (metis undec_dec)

lemma dec_digits: "c \<in> set (dec n) \<Longrightarrow> is_digit c"
proof (induction n rule: dec.induct)
  case (1 n)
  show ?case
  proof (cases "n < 10")
    case True
    with "1.prems" show ?thesis by (subst (asm) dec.simps) (simp add: is_digit_def)
  next
    case False
    with "1.prems" have "c \<in> set (dec (n div 10)) \<or> c = digit_char (n mod 10)"
      by (subst (asm) dec.simps) auto
    with "1.IH"[OF False] show ?thesis by (auto simp: is_digit_def)
  qed
qed

lemma dec_not_Nil [simp]: "dec n \<noteq> []"
  by (subst dec.simps) simp

lemma FormatUint_inj [simp]: "FormatUint m = FormatUint n \<longleftrightarrow> m = n"
  by (simp add: FormatUint_def word_unat_eq_iff)

lemma FormatUint_digits: "c \<in> set (FormatUint n) \<Longrightarrow> is_digit c"
  by (auto simp: FormatUint_def dest: dec_digits)

section \<open>Keyed stores\<close>

text \<open>
  Several services promise the same thing to their clients: what was put under a key
  is what a later look-up of that key returns, and other keys are not disturbed. The
  lemmas about sequences of puts are proved once here.
\<close>

locale keyed_store =
  fixes put :: "'k \<Rightarrow> 'v \<Rightarrow> 's \<Rightarrow> 's"
    and lookup :: "'s \<Rightarrow> 'k \<Rightarrow> 'v option"
    and accepts :: "'k \<Rightarrow> 'v \<Rightarrow> 's \<Rightarrow> bool"
  assumes lookup_put: "accepts k v s \<Longrightarrow> lookup (put k v s) k = Some v"
    and lookup_put_other: "k' \<noteq> k \<Longrightarrow> lookup (put k v s) k' = lookup s k'"
begin

fun puts :: "('k \<times> 'v) list \<Rightarrow> 's \<Rightarrow> 's" where
  "puts [] s = s"
| "puts ((k, v) # kvs) s = puts kvs (put k v s)"

fun all_accepted :: "('k \<times> 'v) list \<Rightarrow> 's \<Rightarrow> bool" where
  "all_accepted [] s = True"
| "all_accepted ((k, v) # kvs) s = (accepts k v s \<and> all_accepted kvs (put k v s))"

lemma puts_frame: "k \<notin> fst ` set kvs \<Longrightarrow> lookup (puts kvs s) k = lookup s k"
proof (induction kvs arbitrary: s)
  case (Cons kv kvs)
  then show ?case by (cases kv) (auto simp: lookup_put_other)
qed simp

lemma puts_lookup:
  "all_accepted kvs s \<Longrightarrow> distinct (map fst kvs) \<Longrightarrow> (k, v) \<in> set kvs \<Longrightarrow>
    lookup (puts kvs s) k = Some v"
proof (induction kvs arbitrary: s)
  case (Cons kv kvs)
  obtain k' v' where kv: "kv = (k', v')" by (cases kv)
  show ?case
  proof (cases "(k, v) = kv")
    case True
    with Cons.prems kv have "k \<notin> fst ` set kvs" and "accepts k v s" by auto
    with True kv show ?thesis by (simp add: puts_frame lookup_put)
  next
    case False
    with Cons.prems kv Cons.IH show ?thesis by auto
  qed
qed simp

end

section \<open>Step relations\<close>

text \<open>
  The services that run several calls at once are step relations. What a step keeps, every
  reachable state has.
\<close>

locale step_invariant =
  fixes step :: "'s \<Rightarrow> 's \<Rightarrow> bool"
    and inv :: "'s \<Rightarrow> bool"
  assumes step_inv: "step s s' \<Longrightarrow> inv s \<Longrightarrow> inv s'"
begin

lemma steps_inv: "step\<^sup>*\<^sup>* s s' \<Longrightarrow> inv s \<Longrightarrow> inv s'"
  by (induction rule: rtranclp_induct) (auto intro: step_inv)

end

text \<open>
  A specification is refined by what the states stand for: where the invariant holds, a step is
  matched by steps of the specification, possibly none. So is every run.
\<close>

locale refinement = step_invariant step inv
  for step :: "'s \<Rightarrow> 's \<Rightarrow> bool" and inv +
  fixes spec_step :: "'a \<Rightarrow> 'a \<Rightarrow> bool"
    and abs :: "'s \<Rightarrow> 'a"
  assumes step_abs: "inv s \<Longrightarrow> step s s' \<Longrightarrow> spec_step\<^sup>*\<^sup>* (abs s) (abs s')"
begin

lemma steps_abs: "step\<^sup>*\<^sup>* s s' \<Longrightarrow> inv s \<Longrightarrow> spec_step\<^sup>*\<^sup>* (abs s) (abs s')"
proof (induction rule: rtranclp_induct)
  case (step y z)
  then show ?case using steps_inv step_abs by (meson rtranclp_trans)
qed simp

end

text \<open>
  A part of a system moves as the part does alone: what the system does, seen at the part, is a
  sequence of the part's own steps. It is a refinement that needs no invariant.
\<close>

locale simulation =
  fixes step :: "'s \<Rightarrow> 's \<Rightarrow> bool"
    and part_step :: "'p \<Rightarrow> 'p \<Rightarrow> bool"
    and part :: "'s \<Rightarrow> 'p"
  assumes step_part: "step s s' \<Longrightarrow> part_step\<^sup>*\<^sup>* (part s) (part s')"

sublocale simulation \<subseteq> always: refinement step "\<lambda>_. True" part_step part
  by unfold_locales (simp_all add: step_part)

context simulation
begin

lemma steps_part: "step\<^sup>*\<^sup>* s s' \<Longrightarrow> part_step\<^sup>*\<^sup>* (part s) (part s')"
  using always.steps_abs by simp

end

text \<open>
  A system whose enabled tasks each bring a measure down reaches a state with none left.
\<close>

locale draining = step_invariant step inv
  for step :: "'s \<Rightarrow> 's \<Rightarrow> bool" and inv +
  fixes weight :: "'s \<Rightarrow> nat"
    and idle :: "'s \<Rightarrow> bool"
  assumes progress: "inv s \<Longrightarrow> \<not> idle s \<Longrightarrow> \<exists>s'. step s s' \<and> weight s' < weight s"
begin

lemma drains: "inv s \<Longrightarrow> \<exists>s'. step\<^sup>*\<^sup>* s s' \<and> inv s' \<and> idle s'"
proof (induction "weight s" arbitrary: s rule: less_induct)
  case less
  show ?case
  proof (cases "idle s")
    case True
    with less.prems show ?thesis by blast
  next
    case False
    then obtain s' where "step s s'" "weight s' < weight s" using progress less.prems by blast
    with less step_inv show ?thesis by (meson converse_rtranclp_into_rtranclp)
  qed
qed

end

section \<open>Encodings\<close>

text \<open>
  What sender and receiver of a text agree on: decoding what was encoded gives it back, and an
  encoded value has no line end in it, so that several values can be sent one per line.
\<close>

fun split_lines :: "string \<Rightarrow> string list" where
  "split_lines [] = [[]]"
| "split_lines (c # cs) =
     (if c = CHR 0x0A then [] # split_lines cs
      else case split_lines cs of [] \<Rightarrow> [[c]] | l # ls \<Rightarrow> (c # l) # ls)"

fun join_lines :: "string list \<Rightarrow> string" where
  "join_lines [] = []"
| "join_lines [l] = l"
| "join_lines (l # ls) = l @ [CHR 0x0A] @ join_lines ls"

lemma split_lines_plain: "CHR 0x0A \<notin> set l \<Longrightarrow> split_lines l = [l]"
  by (induction l) auto

lemma split_lines_append: "CHR 0x0A \<notin> set l \<Longrightarrow> split_lines (l @ CHR 0x0A # r) = l # split_lines r"
  by (induction l) auto

lemma split_join:
  "ls \<noteq> [] \<Longrightarrow> \<forall>l \<in> set ls. CHR 0x0A \<notin> set l \<Longrightarrow> split_lines (join_lines ls) = ls"
  by (induction ls rule: join_lines.induct) (simp_all add: split_lines_plain split_lines_append)

locale line_codec =
  fixes enc :: "'a \<Rightarrow> string"
    and dec :: "string \<Rightarrow> 'a option"
  assumes dec_enc: "dec (enc x) = Some x"
    and enc_line: "CHR 0x0A \<notin> set (enc x)"
begin

lemma enc_inject: "enc x = enc y \<longleftrightarrow> x = y"
  by (metis dec_enc option.inject)

lemma received: "xs \<noteq> [] \<Longrightarrow> map dec (split_lines (join_lines (map enc xs))) = map Some xs"
  by (simp add: split_join enc_line dec_enc)

end

end
