(* ===== verification/BR_Float.thy ===== *)
theory BR_Float
  imports Complex_Main
begin

text \<open>
  Go's \<open>float32\<close> and \<open>float64\<close>: IEEE 754 values with signed zeros, infinities and
  NaN, arithmetic that rounds the exact rational result to the nearest representable
  value (ties to even), gradual underflow, and the comparison \<open><\<close>. Each operation
  rounds once, as the unfused code of the amd64 compiler does.
\<close>

section \<open>Values and rounding\<close>

datatype fl =
    NaN
  | Inf bool        \<comment> \<open>\<open>True\<close>: negative\<close>
  | Zero bool       \<comment> \<open>\<open>True\<close>: negative\<close>
  | Fin rat         \<comment> \<open>a nonzero finite value\<close>

definition pow2 :: "int \<Rightarrow> rat" where
  "pow2 k = (if 0 \<le> k then 2 ^ nat k else 1 / 2 ^ nat (- k))"

function ilog2 :: "int \<Rightarrow> int" where
  "ilog2 n = (if n < 2 then 0 else 1 + ilog2 (n div 2))"
  by pat_completeness auto
termination
  by (relation "measure nat") auto

declare ilog2.simps [simp del]

text \<open>The binary exponent of a positive rational.\<close>

definition rexp :: "rat \<Rightarrow> int" where
  "rexp q = (let (a, b) = quotient_of q; e = ilog2 a - ilog2 b
             in if q < pow2 e then e - 1 else e)"

definition round_half_even :: "rat \<Rightarrow> int" where
  "round_half_even x =
     (let f = \<lfloor>x\<rfloor>; r = x - of_int f
      in if r < 1 / 2 then f else if 1 / 2 < r then f + 1 else if even f then f else f + 1)"

text \<open>
  Rounding of a positive rational in a format with \<open>p\<close> bits of precision, smallest
  exponent \<open>emin\<close> and overflow threshold \<open>2 ^ emax\<close>.
\<close>

record fl_format =
  prec :: int
  emin :: int
  emax :: int

definition binary32 :: fl_format where
  "binary32 = \<lparr>prec = 24, emin = - 149, emax = 128\<rparr>"

definition binary64 :: fl_format where
  "binary64 = \<lparr>prec = 53, emin = - 1074, emax = 1024\<rparr>"

definition ulp_exp :: "fl_format \<Rightarrow> rat \<Rightarrow> int" where
  "ulp_exp F q = max (rexp q - (prec F - 1)) (emin F)"

definition rnd_pos :: "fl_format \<Rightarrow> rat \<Rightarrow> rat" where
  "rnd_pos F q = of_int (round_half_even (q / pow2 (ulp_exp F q))) * pow2 (ulp_exp F q)"

definition rnd :: "fl_format \<Rightarrow> bool \<Rightarrow> rat \<Rightarrow> fl" where
  "rnd F s q =
     (if q = 0 then Zero s
      else let v = rnd_pos F \<bar>q\<bar>
           in if v = 0 then Zero (q < 0)
              else if pow2 (emax F) \<le> v then Inf (q < 0)
              else Fin (if q < 0 then - v else v))"

section \<open>Arithmetic and comparison\<close>

definition neg_sign :: "fl \<Rightarrow> bool" where
  "neg_sign x = (case x of NaN \<Rightarrow> False | Inf s \<Rightarrow> s | Zero s \<Rightarrow> s | Fin q \<Rightarrow> q < 0)"

definition fin_val :: "fl \<Rightarrow> rat" where
  "fin_val x = (case x of Fin q \<Rightarrow> q | _ \<Rightarrow> 0)"

fun fl_add :: "fl_format \<Rightarrow> fl \<Rightarrow> fl \<Rightarrow> fl" where
  "fl_add F NaN y = NaN"
| "fl_add F x NaN = NaN"
| "fl_add F (Inf s) (Inf t) = (if s = t then Inf s else NaN)"
| "fl_add F (Inf s) y = Inf s"
| "fl_add F x (Inf t) = Inf t"
| "fl_add F (Zero s) (Zero t) = Zero (s \<and> t)"
| "fl_add F x y = rnd F False (fin_val x + fin_val y)"

fun fl_mul :: "fl_format \<Rightarrow> fl \<Rightarrow> fl \<Rightarrow> fl" where
  "fl_mul F NaN y = NaN"
| "fl_mul F x NaN = NaN"
| "fl_mul F (Inf s) (Zero t) = NaN"
| "fl_mul F (Zero s) (Inf t) = NaN"
| "fl_mul F (Inf s) y = Inf (s \<noteq> neg_sign y)"
| "fl_mul F x (Inf t) = Inf (neg_sign x \<noteq> t)"
| "fl_mul F x y = rnd F (neg_sign x \<noteq> neg_sign y) (fin_val x * fin_val y)"

fun fl_div :: "fl_format \<Rightarrow> fl \<Rightarrow> fl \<Rightarrow> fl" where
  "fl_div F NaN y = NaN"
| "fl_div F x NaN = NaN"
| "fl_div F (Inf s) (Inf t) = NaN"
| "fl_div F (Zero s) (Zero t) = NaN"
| "fl_div F (Inf s) y = Inf (s \<noteq> neg_sign y)"
| "fl_div F x (Inf t) = Zero (neg_sign x \<noteq> t)"
| "fl_div F x (Zero t) = Inf (neg_sign x \<noteq> t)"
| "fl_div F x y = rnd F (neg_sign x \<noteq> neg_sign y) (fin_val x / fin_val y)"

text \<open>Comparison: false whenever an operand is NaN; the two zeros are equal.\<close>

fun fl_lt :: "fl \<Rightarrow> fl \<Rightarrow> bool" where
  "fl_lt NaN y = False"
| "fl_lt x NaN = False"
| "fl_lt (Inf s) (Inf t) = (s \<and> \<not> t)"
| "fl_lt (Inf s) y = s"
| "fl_lt x (Inf t) = (\<not> t)"
| "fl_lt x y = (fin_val x < fin_val y)"

text \<open>Conversion of an integer, and of one format to another.\<close>

definition fl_of_int :: "fl_format \<Rightarrow> int \<Rightarrow> fl" where
  "fl_of_int F n = rnd F False (of_int n)"

fun fl_conv :: "fl_format \<Rightarrow> fl \<Rightarrow> fl" where
  "fl_conv F (Fin q) = rnd F (q < 0) q"
| "fl_conv F x = x"

text \<open>A constant expression is exact until it is converted to a variable's type.\<close>

definition fl_const :: "fl_format \<Rightarrow> rat \<Rightarrow> fl" where
  "fl_const F q = rnd F False q"

type_synonym f32 = fl
type_synonym f64 = fl

abbreviation f32_add :: "f32 \<Rightarrow> f32 \<Rightarrow> f32" where "f32_add \<equiv> fl_add binary32"
abbreviation f32_mul :: "f32 \<Rightarrow> f32 \<Rightarrow> f32" where "f32_mul \<equiv> fl_mul binary32"
abbreviation f32_div :: "f32 \<Rightarrow> f32 \<Rightarrow> f32" where "f32_div \<equiv> fl_div binary32"
abbreviation f32_const :: "rat \<Rightarrow> f32" where "f32_const \<equiv> fl_const binary32"

definition MaxFloat32 :: f32 where
  "MaxFloat32 = Fin ((2 ^ 24 - 1) * 2 ^ 104)"

section \<open>Comparison is a strict weak order on numbers\<close>

lemma fl_lt_irrefl [simp]: "\<not> fl_lt x x"
  by (cases x) auto

lemma fl_lt_trans: "fl_lt x y \<Longrightarrow> fl_lt y z \<Longrightarrow> fl_lt x z"
  by (cases x; cases y; cases z) (auto simp: fin_val_def)

lemma fl_lt_not_NaN: "fl_lt x y \<Longrightarrow> x \<noteq> NaN \<and> y \<noteq> NaN"
  by (cases x; cases y) auto

lemma fl_lt_neg_trans: "y \<noteq> NaN \<Longrightarrow> \<not> fl_lt x y \<Longrightarrow> \<not> fl_lt y z \<Longrightarrow> \<not> fl_lt x z"
  by (cases x; cases y; cases z) (auto simp: fin_val_def split: if_splits)

section \<open>Rounding stays between powers of two\<close>

lemma pow2_pos [simp]: "0 < pow2 k"
  by (simp add: pow2_def)

lemma pow2_add: "pow2 (a + b) = pow2 a * pow2 b"
proof -
  have p: "pow2 k = 2 powi k" for k
    by (simp add: pow2_def power_int_def field_simps)
  show ?thesis by (simp add: p power_int_add)
qed

lemma pow2_nat: "0 \<le> k \<Longrightarrow> pow2 k = of_int (2 ^ nat k)"
  by (simp add: pow2_def)

lemma pow2_Suc: "pow2 (k + 1) = 2 * pow2 k"
  by (simp add: pow2_add) (simp add: pow2_def)

lemma pow2_mono: "a \<le> b \<Longrightarrow> pow2 a \<le> pow2 b"
proof -
  assume "a \<le> b"
  then have "pow2 b = pow2 a * pow2 (b - a)" by (simp flip: pow2_add)
  moreover have "1 \<le> pow2 (b - a)" using \<open>a \<le> b\<close> by (simp add: pow2_def)
  ultimately show ?thesis by simp
qed

lemma pow2_strict_mono: "a < b \<Longrightarrow> pow2 a < pow2 b"
proof -
  assume "a < b"
  then have "2 * pow2 a \<le> pow2 b" using pow2_mono[of "a + 1" b] by (simp add: pow2_Suc)
  moreover have "0 < pow2 a" by simp
  ultimately show ?thesis by linarith
qed

lemma pow2_less_iff: "pow2 a < pow2 b \<Longrightarrow> a < b"
  by (meson not_le pow2_mono)

lemma ilog2_bounds: "1 \<le> n \<Longrightarrow> 0 \<le> ilog2 n \<and> 2 ^ nat (ilog2 n) \<le> n \<and> n < 2 ^ nat (ilog2 n + 1)"
proof (induction n rule: ilog2.induct)
  case (1 n)
  show ?case
  proof (cases "n < 2")
    case True
    with 1 show ?thesis by (subst (1 2 3) ilog2.simps) simp
  next
    case False
    with 1 have IH: "0 \<le> ilog2 (n div 2)" "2 ^ nat (ilog2 (n div 2)) \<le> n div 2"
      "n div 2 < 2 ^ nat (ilog2 (n div 2) + 1)" by auto
    have e: "ilog2 n = 1 + ilog2 (n div 2)" using False by (subst ilog2.simps) simp
    have s: "nat (1 + ilog2 (n div 2)) = Suc (nat (ilog2 (n div 2)))"
       "nat (1 + ilog2 (n div 2) + 1) = Suc (nat (ilog2 (n div 2) + 1))" using IH(1) by auto
    show ?thesis using IH unfolding e s by auto
  qed
qed

lemma rexp_bounds:
  assumes "0 < q"
  shows "pow2 (rexp q) \<le> q" and "q < pow2 (rexp q + 1)"
proof -
  obtain a b where ab: "quotient_of q = (a, b)" by (cases "quotient_of q")
  have b: "0 < b" using quotient_of_denom_pos[OF ab] .
  have q: "q = of_int a / of_int b" using quotient_of_div[OF ab] .
  have a: "0 < a" using assms q b by (simp add: zero_less_divide_iff)
  define la lb where "la = ilog2 a" and "lb = ilog2 b"
  have la: "0 \<le> la" "2 ^ nat la \<le> a" "a < 2 ^ nat (la + 1)"
    using ilog2_bounds[of a] a by (auto simp: la_def)
  have lb: "0 \<le> lb" "2 ^ nat lb \<le> b" "b < 2 ^ nat (lb + 1)"
    using ilog2_bounds[of b] b by (auto simp: lb_def)
  have A: "pow2 la \<le> of_int a" "of_int a < pow2 (la + 1)"
    using la by (simp_all add: pow2_nat del: of_int_power)
  have B: "pow2 lb \<le> of_int b" "of_int b < pow2 (lb + 1)"
    using lb by (simp_all add: pow2_nat del: of_int_power)
  have qb: "q * of_int b = of_int a" using q b by simp
  have up: "q < pow2 (la - lb + 1)"
  proof (rule ccontr)
    assume "\<not> ?thesis"
    then have "pow2 (la - lb + 1) * pow2 lb \<le> q * of_int b"
      using B(1) assms by (intro mult_mono) (auto intro: less_imp_le)
    then show False using A qb by (simp flip: pow2_add)
  qed
  have lo: "pow2 (la - lb - 1) \<le> q"
  proof (rule ccontr)
    assume "\<not> ?thesis"
    then have "q * of_int b < pow2 (la - lb - 1) * pow2 (lb + 1)"
      using B assms b by (intro mult_strict_mono) auto
    then show False using A qb by (simp flip: pow2_add)
  qed
  have r: "rexp q = (if q < pow2 (la - lb) then la - lb - 1 else la - lb)"
    by (simp add: rexp_def ab la_def lb_def)
  show "pow2 (rexp q) \<le> q" using lo r by auto
  show "q < pow2 (rexp q + 1)" using up r by auto
qed

lemma round_half_even_le: "x \<le> of_int n \<Longrightarrow> round_half_even x \<le> n"
proof -
  assume x: "x \<le> of_int n"
  then have f: "\<lfloor>x\<rfloor> \<le> n" by linarith
  show ?thesis
  proof (cases "\<lfloor>x\<rfloor> = n")
    case True
    with x have "x - of_int \<lfloor>x\<rfloor> < 1 / 2" by simp
    with True show ?thesis by (simp add: round_half_even_def Let_def)
  next
    case False
    with f show ?thesis by (auto simp: round_half_even_def Let_def)
  qed
qed

lemma round_half_even_ge: "of_int n \<le> x \<Longrightarrow> n \<le> round_half_even x"
proof -
  assume "of_int n \<le> x"
  then have "n \<le> \<lfloor>x\<rfloor>" by linarith
  then show ?thesis by (auto simp: round_half_even_def Let_def)
qed

lemma rnd_pos_nonneg: "0 \<le> q \<Longrightarrow> 0 \<le> rnd_pos F q"
  using round_half_even_ge[of 0 "q / pow2 (ulp_exp F q)"]
  by (simp add: rnd_pos_def less_imp_le)

text \<open>Rounding does not go past a number the format represents.\<close>

lemma rnd_pos_le_repr:
  assumes "0 < q" "q \<le> of_int n * pow2 e" "n < 2 ^ nat (prec F)" "emin F \<le> e" "1 \<le> prec F"
  shows "rnd_pos F q \<le> of_int n * pow2 e"
proof -
  let ?u = "ulp_exp F q"
  have "rat_of_int n * pow2 e < of_int (2 ^ nat (prec F)) * pow2 e"
    using assms(3) by (intro mult_strict_right_mono) (simp_all only: of_int_less_iff pow2_pos)
  moreover have "pow2 (prec F + e) = of_int (2 ^ nat (prec F)) * pow2 e"
    using assms(5) by (simp add: pow2_add pow2_nat)
  ultimately have "q < pow2 (prec F + e)" using assms(2) by (metis le_less_trans)
  then have "pow2 (rexp q) < pow2 (prec F + e)" using rexp_bounds(1)[OF assms(1)] by linarith
  then have "rexp q < prec F + e" by (rule pow2_less_iff)
  with assms have ue: "?u \<le> e" by (simp add: ulp_exp_def)
  have e: "pow2 e = pow2 (e - ?u) * pow2 ?u" by (simp flip: pow2_add)
  have "q / pow2 ?u \<le> of_int n * pow2 (e - ?u)"
    using assms(2) e by (simp add: divide_le_eq mult.assoc)
  then have "q / pow2 ?u \<le> of_int (n * 2 ^ nat (e - ?u))" using ue by (simp add: pow2_nat)
  then have "round_half_even (q / pow2 ?u) \<le> n * 2 ^ nat (e - ?u)" by (rule round_half_even_le)
  then have "rat_of_int (round_half_even (q / pow2 ?u)) \<le> of_int (n * 2 ^ nat (e - ?u))"
    by (simp only: of_int_le_iff)
  then have "rat_of_int (round_half_even (q / pow2 ?u)) \<le> of_int n * pow2 (e - ?u)"
    using ue by (simp add: pow2_nat)
  then have "rnd_pos F q \<le> of_int n * pow2 (e - ?u) * pow2 ?u"
    unfolding rnd_pos_def by (intro mult_right_mono) (auto intro: less_imp_le)
  then show ?thesis by (subst e) (simp add: mult.assoc)
qed

section \<open>Non-negative bounded values\<close>

text \<open>A value between zero and \<open>c\<close>: neither negative, nor infinite, nor NaN.\<close>

definition fl_upto :: "rat \<Rightarrow> fl \<Rightarrow> bool" where
  "fl_upto c x \<longleftrightarrow> (case x of Zero s \<Rightarrow> \<not> s | Fin q \<Rightarrow> 0 < q \<and> q \<le> c | _ \<Rightarrow> False)"

lemma upto_not_NaN [dest]: "fl_upto c x \<Longrightarrow> x \<noteq> NaN"
  by (auto simp: fl_upto_def)

lemma upto_fin_val: "fl_upto c x \<Longrightarrow> 0 \<le> c \<Longrightarrow> 0 \<le> fin_val x \<and> fin_val x \<le> c"
  by (auto simp: fl_upto_def fin_val_def less_imp_le split: fl.splits)

lemma upto_mono: "fl_upto c x \<Longrightarrow> c \<le> d \<Longrightarrow> fl_upto d x"
  by (auto simp: fl_upto_def split: fl.splits)

text \<open>A number of the format, as an integer multiple of a power of two.\<close>

definition repr :: "fl_format \<Rightarrow> int \<Rightarrow> int \<Rightarrow> bool" where
  "repr F n e \<longleftrightarrow> n < 2 ^ nat (prec F) \<and> emin F \<le> e \<and> 1 \<le> prec F \<and> of_int n * pow2 e < pow2 (emax F)"

lemma reprI:
  assumes "n < 2 ^ nat (prec F)" "emin F \<le> e" "1 \<le> prec F" "prec F + e \<le> emax F"
  shows "repr F n e"
proof -
  have "rat_of_int n * pow2 e < of_int (2 ^ nat (prec F)) * pow2 e"
    using assms(1) by (intro mult_strict_right_mono) (simp_all only: of_int_less_iff pow2_pos)
  also have "\<dots> = pow2 (prec F + e)" using assms(3) by (simp add: pow2_add pow2_nat)
  also have "\<dots> \<le> pow2 (emax F)" using assms(4) by (rule pow2_mono)
  finally show ?thesis using assms by (simp add: repr_def)
qed

lemma repr32: "n < 2 ^ 24 \<Longrightarrow> - 149 \<le> e \<Longrightarrow> e \<le> 104 \<Longrightarrow> repr binary32 n e"
  by (rule reprI) (simp_all add: binary32_def)

lemma repr64: "n < 2 ^ 53 \<Longrightarrow> - 1074 \<le> e \<Longrightarrow> e \<le> 971 \<Longrightarrow> repr binary64 n e"
  by (rule reprI) (simp_all add: binary64_def)

lemma rnd_upto:
  assumes "0 \<le> q" "q \<le> of_int n * pow2 e" "repr F n e"
  shows "fl_upto (of_int n * pow2 e) (rnd F False q)"
proof (cases "q = 0")
  case True
  then show ?thesis by (simp add: rnd_def fl_upto_def)
next
  case False
  with assms have q: "0 < q" by simp
  have "rnd_pos F q \<le> of_int n * pow2 e" using rnd_pos_le_repr assms q by (simp add: repr_def)
  moreover have "of_int n * pow2 e < pow2 (emax F)" using assms(3) by (simp add: repr_def)
  ultimately show ?thesis using q rnd_pos_nonneg[of q F]
    by (auto simp: rnd_def fl_upto_def Let_def)
qed

lemma fl_mul_upto:
  assumes "fl_upto c x" "fl_upto d y" "0 \<le> c" "0 \<le> d" "fin_val x * fin_val y \<le> of_int n * pow2 e"
    "repr F n e"
  shows "fl_upto (of_int n * pow2 e) (fl_mul F x y)"
proof -
  have e: "fl_mul F x y = rnd F False (fin_val x * fin_val y)"
    using assms(1,2) by (cases x; cases y) (auto simp: fl_upto_def neg_sign_def split: if_splits)
  have "0 \<le> fin_val x * fin_val y" using assms(1-4) upto_fin_val by simp
  then show ?thesis unfolding e using assms by (intro rnd_upto)
qed

lemma fl_add_upto:
  assumes "fl_upto c x" "fl_upto d y" "0 \<le> c" "0 \<le> d" "fin_val x + fin_val y \<le> of_int n * pow2 e"
    "repr F n e"
  shows "fl_upto (of_int n * pow2 e) (fl_add F x y)"
proof -
  have e: "fl_add F x y = rnd F False (fin_val x + fin_val y)"
    using assms(1,2)
    by (cases x; cases y) (auto simp: fl_upto_def fin_val_def rnd_def split: if_splits)
  have "0 \<le> fin_val x + fin_val y"
    using assms(1-4) upto_fin_val[of c x] upto_fin_val[of d y] by simp
  then show ?thesis unfolding e using assms by (intro rnd_upto)
qed

lemma fl_div_upto:
  assumes "fl_upto c x" "y = Fin b" "0 < b" "0 \<le> c" "fin_val x / b \<le> of_int n * pow2 e" "repr F n e"
  shows "fl_upto (of_int n * pow2 e) (fl_div F x y)"
proof -
  have e: "fl_div F x y = rnd F False (fin_val x / b)"
    using assms(1-3) by (cases x) (auto simp: fl_upto_def fin_val_def neg_sign_def split: if_splits)
  have "0 \<le> fin_val x / b" using assms upto_fin_val[of c x] by simp
  then show ?thesis unfolding e using assms by (intro rnd_upto)
qed

lemma fl_conv_upto:
  assumes "fl_upto c x" "0 \<le> c" "c \<le> of_int n * pow2 e" "repr F n e"
  shows "fl_upto (of_int n * pow2 e) (fl_conv F x)"
proof (cases x)
  case (Fin q)
  with assms(1) have q: "0 < q" "q \<le> c" by (auto simp: fl_upto_def)
  have "fl_upto (of_int n * pow2 e) (rnd F False q)"
    using q assms by (intro rnd_upto) auto
  with Fin q show ?thesis by simp
qed (use assms in \<open>auto simp: fl_upto_def\<close>)

end
