(* ===== verification/BR_Messages.thy ===== *)
theory BR_Messages
  imports BR_Prelude BR_Float
begin

text \<open>
  The messages of the services (\<open>src/proto/rayclient.proto\<close> and the Go structs generated
  from it in \<open>src/go/pkg/rayclient.pb.go\<close>), one record per message with the message's
  fields. Field names carry a short prefix where several messages share a field name.
\<close>

record StatusResponse =
  Success :: bool
  ErrorCode :: u32
  ErrorMessage :: string
  Details :: string

record GlobalScheduleRequest =
  gs_Uid :: u64
  gs_Name :: u64
  gs_Args :: bytes
  gs_Kwargs :: bytes
  gs_Uids :: "u64 list"
  gs_NewObject :: bool
  gs_NodeId :: u64
  gs_LocalityFlag :: bool

record HeartbeatRequest =
  hb_RunningTasks :: u32
  hb_QueuedTasks :: u32
  hb_AvgRunningTime :: f32
  hb_AvgBandwidth :: f32
  hb_NodeId :: u64

record ScheduleRequest =
  sr_Name :: u64
  sr_Args :: bytes
  sr_Kwargs :: bytes
  sr_Uids :: "u64 list"
  sr_NodeId :: u64
  sr_LocalityFlag :: bool

record ScheduleResponse =
  sresp_Uid :: u64

record StoreRequest =
  st_Uid :: u64
  st_ObjectBytes :: bytes

record GetRequest =
  get_Uid :: u64
  get_Testing :: bool
  get_Copy :: bool
  get_Cache :: bool

record GetResponse =
  gresp_Uid :: u64
  gresp_ObjectBytes :: bytes
  gresp_Local :: bool
  gresp_Size :: u64

record BandwidthResponse =
  bw_AvgBandwidth :: f32

record LocationFoundCallback =
  lf_Uid :: u64
  lf_Location :: u64
  lf_Address :: string
  lf_Port :: u64

record CopyRequest =
  cp_Uid :: u64
  cp_Requester :: u64

record CopyResponse =
  cpresp_Uid :: u64
  cpresp_ObjectBytes :: bytes

record RunRequest =
  run_Uid :: u64
  run_Name :: u64
  run_Args :: bytes
  run_Kwargs :: bytes

record WorkerStatusResponse =
  ws_NumRunningTasks :: u32
  ws_NumQueuedTasks :: u32
  ws_AverageRunningTime :: f32

record NotifyOwnsRequest =
  no_Uid :: u64
  no_NodeId :: u64
  no_ObjectSize :: u64

record RequestLocationRequest =
  rl_Uid :: u64
  rl_Requester :: u64

record RequestLocationResponse =
  ImmediatelyFound :: bool

record ObjectLocationsRequest =
  ol_Args :: "u64 list"

record LocationByteTuple =
  Locations :: "u64 list"
  Bytes :: u64

record ObjectLocationsResponse =
  olresp_Locations :: "u64 \<rightharpoonup> LocationByteTuple"

record LiveNodesRequest =
  ln_LiveNodes :: "u64 \<rightharpoonup> bool"

record GeneratingRequest =
  gen_Uid :: u64
  gen_NodeId :: u64

record RegisterRequest =
  reg_SerializedFunc :: bytes

record RegisterResponse =
  regresp_Name :: u64

record FetchRequest =
  fe_Name :: u64
  fe_CallbackNodeId :: u64

record FetchResponse =
  feresp_SerializedFunc :: bytes

text \<open>
  A message literal sets some fields and leaves the others at their zero value. These
  constructors name the literals the handlers build.
\<close>

definition status :: "bool \<Rightarrow> StatusResponse" where
  "status b = \<lparr>Success = b, ErrorCode = 0, ErrorMessage = [], Details = []\<rparr>"

lemma status_inject [simp]: "status a = status b \<longleftrightarrow> a = b"
  by (simp add: status_def)

lemma Success_status [simp]: "Success (status b) = b"
  by (simp add: status_def)

end
