(* ===== verification/GCS_FuncTable.thy ===== *)
theory GCS_FuncTable
  imports BR_Messages
begin

unbundle bit_operations_syntax

text \<open>
  The GCS function table (\<open>src/go/cmd/gcsfunctable/main.go\<close>): the server state, the
  generation of function names from the random source, \<open>RegisterFunc\<close> and
  \<open>FetchFunc\<close>.
\<close>

section \<open>State\<close>

record GCSFuncServer =
  functionStore :: "u64 \<rightharpoonup> bytes"

definition NewGCSFuncServer :: GCSFuncServer where
  "NewGCSFuncServer = \<lparr>functionStore = Map.empty\<rparr>"

section \<open>Function names\<close>

text \<open>
  \<open>binary.Read(rand.Reader, binary.BigEndian, &n)\<close> reads eight bytes and assembles them
  most significant first; fewer than eight bytes are an error. The argument is what the
  random source delivers.
\<close>

definition be_u64 :: "bytes \<Rightarrow> u64" where
  "be_u64 bs = foldl (\<lambda>a b. push_bit 8 a OR ucast b) 0 bs"

definition generateUID :: "bytes rpc \<Rightarrow> u64 rpc" where
  "generateUID src =
     (case src of
        Inl e \<Rightarrow> Inl e
      | Inr bs \<Rightarrow> if length bs < 8 then Inl (PlainError ''unexpected EOF'')
                  else Inr (be_u64 (take 8 bs)))"

section \<open>Operations\<close>

definition RegisterFunc ::
  "bytes rpc \<Rightarrow> RegisterRequest \<Rightarrow> GCSFuncServer \<Rightarrow> RegisterResponse ret \<times> GCSFuncServer" where
  "RegisterFunc src req s =
     (case generateUID src of
        Inl e \<Rightarrow> ((None, Some (StatusError Internal ''Internal failed to generate UID'')), s)
      | Inr uid \<Rightarrow>
          ((Some \<lparr>regresp_Name = uid\<rparr>, None),
            s\<lparr>functionStore := (functionStore s)(uid \<mapsto> reg_SerializedFunc req)\<rparr>))"

definition FetchFunc :: "FetchRequest \<Rightarrow> GCSFuncServer \<Rightarrow> FetchResponse ret \<times> GCSFuncServer" where
  "FetchFunc req s =
     (case functionStore s (fe_Name req) of
        None \<Rightarrow> ((None, Some (StatusError NotFound ''function not found'')), s)
      | Some serializedFunc \<Rightarrow> ((Some \<lparr>feresp_SerializedFunc = serializedFunc\<rparr>, None), s))"


section \<open>The name generator as a bijection\<close>

text \<open>
  Specification side: the big-endian bytes of a name.
\<close>

fun be_bytes :: "nat \<Rightarrow> u64 \<Rightarrow> bytes" where
  "be_bytes 0 n = []"
| "be_bytes (Suc k) n = be_bytes k (drop_bit 8 n) @ [ucast n]"

lemma length_be_bytes [simp]: "length (be_bytes k n) = k"
  by (induction k arbitrary: n) auto

lemma be_u64_snoc: "be_u64 (bs @ [b]) = push_bit 8 (be_u64 bs) OR ucast b"
  by (simp add: be_u64_def)

lemma be_u64_be_bytes: "be_u64 (be_bytes k n) = take_bit (8 * k) n"
proof (induction k arbitrary: n)
  case 0
  show ?case by (simp add: be_u64_def)
next
  case (Suc k)
  have "push_bit 8 (take_bit (8 * k) (drop_bit 8 n)) OR ucast (ucast n :: byte)
      = take_bit (8 * Suc k) n"
    by (rule bit_word_eqI) (auto simp: bit_simps)
  with Suc show ?case by (simp add: be_u64_snoc)
qed

corollary be_u64_be_bytes_8 [simp]: "be_u64 (be_bytes 8 n) = n"
  by (simp add: be_u64_be_bytes take_bit_word_eq_self)

lemma be_bytes_be_u64: "length bs \<le> 8 \<Longrightarrow>
   be_bytes (length bs) (be_u64 bs) = bs \<and> take_bit (8 * length bs) (be_u64 bs) = be_u64 bs"
proof (induction bs rule: rev_induct)
  case Nil
  show ?case by (simp add: be_u64_def)
next
  case (snoc b bs)
  let ?a = "be_u64 bs"
  from snoc have IH: "be_bytes (length bs) ?a = bs" "take_bit (8 * length bs) ?a = ?a"
    and l: "length bs \<le> 7" by auto
  from l have "take_bit 56 (take_bit (8 * length bs) ?a) = take_bit (8 * length bs) ?a"
    by (simp add: min_def)
  with IH have a: "take_bit 56 ?a = ?a" by simp
  have "drop_bit 8 (push_bit 8 (take_bit 56 ?a) OR ucast b) = take_bit 56 ?a"
    by (rule bit_word_eqI) (auto simp: bit_simps dest: bit_imp_le_length)
  with a have d: "drop_bit 8 (push_bit 8 ?a OR ucast b) = ?a" by simp
  have u: "ucast (push_bit 8 ?a OR ucast b) = b"
    by (rule bit_word_eqI) (auto simp: bit_simps)
  have "take_bit (8 + 8 * length bs) (push_bit 8 (take_bit (8 * length bs) ?a) OR ucast b)
     = push_bit 8 (take_bit (8 * length bs) ?a) OR ucast b"
    by (rule bit_word_eqI) (auto simp: bit_simps dest: bit_imp_le_length)
  with IH d u show ?case by (simp add: be_u64_snoc)
qed

section \<open>The table as a keyed store\<close>

definition func_of :: "FetchResponse ret \<Rightarrow> bytes option" where
  "func_of r = map_option feresp_SerializedFunc (fst r)"

definition funcs :: "GCSFuncServer \<Rightarrow> u64 \<Rightarrow> bytes option" where
  "funcs s name = func_of (fst (FetchFunc \<lparr>fe_Name = name, fe_CallbackNodeId = 0\<rparr> s))"

definition register_as :: "u64 \<Rightarrow> bytes \<Rightarrow> GCSFuncServer \<Rightarrow> GCSFuncServer" where
  "register_as name f s = snd (RegisterFunc (Inr (be_bytes 8 name)) \<lparr>reg_SerializedFunc = f\<rparr> s)"

lemma generateUID_be_bytes [simp]: "generateUID (Inr (be_bytes 8 n)) = Inr n"
  by (simp add: generateUID_def)

lemma fst_FetchFunc: "fst (FetchFunc req s) =
    (case functionStore s (fe_Name req) of
       None \<Rightarrow> (None, Some (StatusError NotFound ''function not found''))
     | Some f \<Rightarrow> (Some \<lparr>feresp_SerializedFunc = f\<rparr>, None))"
  by (simp add: FetchFunc_def split: option.split)

lemma funcs_simps [simp]: "funcs s = functionStore s"
  by (rule ext) (simp add: funcs_def func_of_def fst_FetchFunc split: option.split)

interpretation ft: keyed_store register_as funcs "\<lambda>name f s. True"
  by unfold_locales (simp_all add: register_as_def RegisterFunc_def)

lemma registrations_fetchable:
  assumes "distinct (map fst kvs)" and "(name, f) \<in> set kvs"
  shows "funcs (ft.puts kvs s) name = Some f"
proof (rule ft.puts_lookup)
  show "ft.all_accepted kvs s" by (induction kvs s rule: ft.puts.induct) simp_all
qed (use assms in auto)

section \<open>Properties\<close>

text \<open>A registered function is what \<open>FetchFunc\<close> returns for the name handed out by
  \<open>RegisterFunc\<close>, without error; fetching any other name gives what it gave before.\<close>

theorem RegisterFunc_FetchFunc:
  assumes "RegisterFunc src req s = ((Some resp, None), s')"
  shows "fst (FetchFunc \<lparr>fe_Name = regresp_Name resp, fe_CallbackNodeId = c\<rparr> s')
      = (Some \<lparr>feresp_SerializedFunc = reg_SerializedFunc req\<rparr>, None) \<and>
    (\<forall>freq. fe_Name freq \<noteq> regresp_Name resp \<longrightarrow> fst (FetchFunc freq s') = fst (FetchFunc freq s))"
  using assms
  by (auto simp: RegisterFunc_def fst_FetchFunc split: sum.splits)

theorem RegisterFunc_FetchFunc_witness:
  "fst (FetchFunc \<lparr>fe_Name = 258, fe_CallbackNodeId = 0\<rparr>
      (snd (RegisterFunc (Inr [0,0,0,0,0,0,1,2]) \<lparr>reg_SerializedFunc = [7,8]\<rparr> NewGCSFuncServer)))
     = (Some \<lparr>feresp_SerializedFunc = [7,8]\<rparr>, None)"
proof -
  have uid: "be_u64 [0,0,0,0,0,0,1,2] = 258" by (simp add: be_u64_def)
  have r: "RegisterFunc (Inr [0,0,0,0,0,0,1,2]) \<lparr>reg_SerializedFunc = [7,8]\<rparr> NewGCSFuncServer =
      ((Some \<lparr>regresp_Name = 258\<rparr>, None), \<lparr>functionStore = [258 \<mapsto> [7,8]]\<rparr>)"
    by (simp add: RegisterFunc_def generateUID_def NewGCSFuncServer_def uid)
  from RegisterFunc_FetchFunc[OF r, of 0] r show ?thesis by simp
qed

text \<open>C29 Any sequence of registrations under distinct names, starting from a fresh server, leaves
  every one of them fetchable, and a name that was never handed out is answered with
  \<open>NotFound\<close>.\<close>

theorem registrations_from_fresh:
  assumes "distinct (map fst kvs)"
  shows "fst (FetchFunc \<lparr>fe_Name = name, fe_CallbackNodeId = c\<rparr> (ft.puts kvs NewGCSFuncServer)) =
    (case map_of kvs name of
       Some f \<Rightarrow> (Some \<lparr>feresp_SerializedFunc = f\<rparr>, None)
     | None \<Rightarrow> (None, Some (StatusError NotFound ''function not found'')))"
proof (cases "map_of kvs name")
  case None
  then have "funcs (ft.puts kvs NewGCSFuncServer) name = None"
    by (subst ft.puts_frame) (auto simp: map_of_eq_None_iff NewGCSFuncServer_def)
  with None show ?thesis by (simp add: fst_FetchFunc)
next
  case (Some f)
  with assms have "funcs (ft.puts kvs NewGCSFuncServer) name = Some f"
    by (intro registrations_fetchable) (auto dest: map_of_SomeD)
  with Some show ?thesis by (simp add: fst_FetchFunc)
qed

theorem registrations_from_fresh_witness:
  "fst (FetchFunc \<lparr>fe_Name = 2, fe_CallbackNodeId = 0\<rparr>
      (ft.puts [(1, [10]), (2, [20])] NewGCSFuncServer))
    = (Some \<lparr>feresp_SerializedFunc = [20]\<rparr>, None)"
  using registrations_from_fresh [of "[(1, [10]), (2, [20])]" 2 0] by simp

text \<open>\<open>RegisterFunc\<close> fails exactly when the random source fails or delivers fewer than eight
  bytes; the failure is reported as an internal error and leaves the table as it was.\<close>

theorem RegisterFunc_error_iff:
  "(case src of Inl _ \<Rightarrow> True | Inr bs \<Rightarrow> length bs < 8) \<longleftrightarrow>
     RegisterFunc src req s =
       ((None, Some (StatusError Internal ''Internal failed to generate UID'')), s)"
  by (auto simp: RegisterFunc_def generateUID_def split: sum.splits if_splits)

text \<open>Names carry all the entropy of the source: every 64-bit name is the result of exactly one
  draw of eight bytes.\<close>

theorem generateUID_bijective:
  "\<exists>!bs. length bs = 8 \<and> generateUID (Inr bs) = Inr n"
proof (rule ex1I [of _ "be_bytes 8 n"])
  show "length (be_bytes 8 n) = 8 \<and> generateUID (Inr (be_bytes 8 n)) = Inr n" by simp
next
  fix bs
  assume "length bs = 8 \<and> generateUID (Inr bs) = Inr n"
  then have "length bs = 8" and "be_u64 bs = be_u64 (be_bytes 8 n)"
    by (auto simp: generateUID_def split: if_splits)
  then show "bs = be_bytes 8 n" using be_bytes_be_u64 [of bs] by simp
qed

end
