(* ===== verification/GCS_Db.thy ===== *)
theory GCS_Db
  imports BR_Prelude
begin

text \<open>
  The persistent side of the GCS object table (\<open>src/go/cmd/gcsobjtable/db.go\<close>). The SQL
  text each function builds is modelled as it is written; the SQLite driver that runs the
  text is a parameter, and the locale \<open>sqlite\<close> states what the code relies on: the
  documented meaning of the three statement shapes, of transactions and of the primary
  key. The interface \<open>location_store\<close> is what the object table sees.
\<close>

section \<open>The driver\<close>

text \<open>
  An open database (or transaction) is a state \<open>'db\<close>. SQLite integers are 64-bit. A
  query delivers rows and the error, if any, that ended the iteration.
\<close>

record 'db sql_driver =
  sql_prepare :: "string \<Rightarrow> 'db \<Rightarrow> go_error option"
  sql_exec :: "string \<Rightarrow> u64 list \<Rightarrow> 'db \<Rightarrow> go_error option \<times> 'db"
  sql_query :: "string \<Rightarrow> u64 list \<Rightarrow> 'db \<Rightarrow> go_error + (u64 list \<times> go_error option)"
  sql_begin :: "'db \<Rightarrow> go_error + 'db"
  sql_commit :: "'db \<Rightarrow> go_error option \<times> 'db"
  sql_rollback :: "'db \<Rightarrow> 'db"

text \<open>
  \<open>database/sql\<close> converts arguments before the driver sees them and refuses an
  unsigned value with the high bit set.
\<close>

fun driverArgs :: "u64 list \<Rightarrow> u64 list rpc" where
  "driverArgs [] = Inr []"
| "driverArgs (a # as) =
     (if 2 ^ 63 \<le> a
      then Inl (SqlError ''uint64 values with high bit set are not supported'')
      else case driverArgs as of Inl e \<Rightarrow> Inl e | Inr bs \<Rightarrow> Inr (a # bs))"

definition Exec :: "'db sql_driver \<Rightarrow> string \<Rightarrow> u64 list \<Rightarrow> 'db \<Rightarrow> go_error option \<times> 'db" where
  "Exec drv q args db =
     (case driverArgs args of
        Inl e \<Rightarrow> (Some e, db)
      | Inr as \<Rightarrow> sql_exec drv q as db)"

text \<open>\<open>strings.Join\<close>.\<close>

fun Join :: "string list \<Rightarrow> string \<Rightarrow> string" where
  "Join [] sep = []"
| "Join [x] sep = x"
| "Join (x # xs) sep = x @ sep @ Join xs sep"

section \<open>Operations\<close>

definition setCacheSizeToZero :: "'db sql_driver \<Rightarrow> 'db \<Rightarrow> go_error option \<times> 'db" where
  "setCacheSizeToZero drv db = Exec drv ''PRAGMA cache_size = 0;'' [] db"

definition createTableSQL :: string where
  \<open>createTableSQL =
     ''CREATE TABLE IF NOT EXISTS object_locations ('' @ [CHR 0x0A]
     @ ''        "object_uid" INTEGER NOT NULL,'' @ [CHR 0x0A]
     @ ''        "node_id" INTEGER NOT NULL,'' @ [CHR 0x0A]
     @ ''        PRIMARY KEY (object_uid, node_id)'' @ [CHR 0x0A]
     @ ''    );''\<close>

definition createIndexSQL :: string where
  "createIndexSQL =
     ''CREATE INDEX IF NOT EXISTS idx_object_uid_object_locations ''
     @ ''ON object_locations (object_uid);''"

definition createObjectLocationsTable ::
  "'db sql_driver \<Rightarrow> 'db \<Rightarrow> go_error option \<times> 'db" where
  "createObjectLocationsTable drv db =
     (case sql_prepare drv createTableSQL db of
        Some e \<Rightarrow> (Some e, db)
      | None \<Rightarrow>
          (case Exec drv createTableSQL [] db of
             (Some e, db1) \<Rightarrow> (Some e, db1)
           | (None, db1) \<Rightarrow>
               (case sql_prepare drv createIndexSQL db1 of
                  Some e \<Rightarrow> (Some e, db1)
                | None \<Rightarrow>
                    (case Exec drv createIndexSQL [] db1 of
                       (Some e, db2) \<Rightarrow> (Some e, db2)
                     | (None, db2) \<Rightarrow> (None, db2)))))"

text \<open>
  The statement texts: one placeholder per object for the bulk delete, one pair of
  placeholders per location for the bulk insert.
\<close>

definition deleteSQL :: "string list \<Rightarrow> string" where
  "deleteSQL objectUIDs =
     ''DELETE FROM object_locations WHERE object_uid IN ('' @ Join objectUIDs '','' @ '');''"

definition insertSQL :: "string list \<Rightarrow> string" where
  "insertSQL valueStrings =
     ''INSERT INTO object_locations (object_uid, node_id) VALUES '' @ Join valueStrings '',''"

definition querySQL :: string where
  "querySQL = ''SELECT node_id FROM object_locations WHERE object_uid = ?;''"

text \<open>
  The two \<open>range\<close> loops over \<open>objectLocations\<close> may visit the keys in different orders
  (\<open>ks\<close> and \<open>ks'\<close>).
\<close>

definition deleteArgs :: "u64 list \<Rightarrow> u64 list" where
  "deleteArgs ks = ks"

definition valueStrings :: "u64 list \<Rightarrow> (u64 \<rightharpoonup> u64 list) \<Rightarrow> string list" where
  "valueStrings ks m = concat (map (\<lambda>u. map (\<lambda>_. ''(?, ?)'') (lookup_list m u)) ks)"

definition valueArgs :: "u64 list \<Rightarrow> (u64 \<rightharpoonup> u64 list) \<Rightarrow> u64 list" where
  "valueArgs ks m = concat (map (\<lambda>u. concat (map (\<lambda>n. [u, n]) (lookup_list m u))) ks)"

definition insertOrUpdateObjectLocations ::
  "'db sql_driver \<Rightarrow> u64 list \<Rightarrow> u64 list \<Rightarrow> (u64 \<rightharpoonup> u64 list) \<Rightarrow> 'db \<Rightarrow> go_error option \<times> 'db" where
  "insertOrUpdateObjectLocations drv ks ks' objectLocations db =
     (case sql_begin drv db of
        Inl e \<Rightarrow> (Some e, db)
      | Inr tx \<Rightarrow>
          (case Exec drv (deleteSQL (map (\<lambda>_. ''?'') ks)) (deleteArgs ks) tx of
             (Some e, tx1) \<Rightarrow> (Some e, sql_rollback drv tx1)
           | (None, tx1) \<Rightarrow>
               (case Exec drv (insertSQL (valueStrings ks' objectLocations))
                       (valueArgs ks' objectLocations) tx1 of
                  (Some e, tx2) \<Rightarrow> (Some e, sql_rollback drv tx2)
                | (None, tx2) \<Rightarrow>
                    (case sql_commit drv tx2 of
                       (Some e, db') \<Rightarrow> (Some e, db')
                     | (None, db') \<Rightarrow> (None, db')))))"

text \<open>\<open>rows.Scan(&nodeID)\<close> into an unsigned variable refuses a negative integer.\<close>

fun scanRows :: "u64 list \<Rightarrow> u64 list rpc" where
  "scanRows [] = Inr []"
| "scanRows (n # ns) =
     (if sint n < 0 then Inl (SqlError ''converting driver.Value type int64 to a uint64'')
      else case scanRows ns of Inl e \<Rightarrow> Inl e | Inr ms \<Rightarrow> Inr (n # ms))"

definition getObjectLocations :: "'db sql_driver \<Rightarrow> 'db \<Rightarrow> u64 \<Rightarrow> u64 list rpc" where
  "getObjectLocations drv db objectUID =
     (case driverArgs [objectUID] of
        Inl e \<Rightarrow> Inl e
      | Inr as \<Rightarrow>
          (case sql_query drv querySQL as db of
             Inl e \<Rightarrow> Inl e
           | Inr (rs, iterErr) \<Rightarrow>
               (case scanRows rs of
                  Inl e \<Rightarrow> Inl e
                | Inr nodeIDs \<Rightarrow>
                    (case iterErr of Some e \<Rightarrow> Inl e | None \<Rightarrow> Inr nodeIDs))))"

section \<open>What the code relies on\<close>

fun pairs :: "'a list \<Rightarrow> ('a \<times> 'a) list" where
  "pairs (a # b # xs) = (a, b) # pairs xs"
| "pairs _ = []"

abbreviation marks :: "nat \<Rightarrow> string list" where
  "marks n \<equiv> replicate n ''?''"

abbreviation tuples :: "nat \<Rightarrow> string list" where
  "tuples n \<equiv> replicate n ''(?, ?)''"

text \<open>
  \<open>rows\<close> is the content of \<open>object_locations\<close> as the connection sees it, \<open>saved\<close> its
  content when the current transaction began.
  \<^item> a failing statement changes nothing; no statement changes what a rollback restores;
  \<^item> a bulk delete removes the rows of the given objects;
  \<^item> a bulk insert that succeeds had at least one tuple (the grammar asks for one), and
    all its rows were new and different (the primary key); it adds them;
  \<^item> a rollback, and a commit that fails, restore the saved rows;
  \<^item> the query delivers each matching row once.
\<close>

locale sqlite =
  fixes drv :: "'db sql_driver"
    and rows :: "'db \<Rightarrow> (u64 \<times> u64) set"
    and saved :: "'db \<Rightarrow> (u64 \<times> u64) set"
  assumes begin_rows: "sql_begin drv db = Inr tx \<Longrightarrow> rows tx = rows db \<and> saved tx = rows db"
    and exec_saved: "sql_exec drv q args db = (r, db') \<Longrightarrow> saved db' = saved db"
    and exec_error: "sql_exec drv q args db = (Some e, db') \<Longrightarrow> rows db' = rows db"
    and delete_rows: "sql_exec drv (deleteSQL (marks n)) args db = (None, db') \<Longrightarrow>
      length args = n \<Longrightarrow> rows db' = {r \<in> rows db. fst r \<notin> set args}"
    and insert_rows: "sql_exec drv (insertSQL (tuples n)) args db = (None, db') \<Longrightarrow>
      length args = 2 * n \<Longrightarrow>
      0 < n \<and> distinct (pairs args) \<and> set (pairs args) \<inter> rows db = {} \<and>
      rows db' = rows db \<union> set (pairs args)"
    and rollback_rows: "rows (sql_rollback drv db) = saved db"
    and commit_rows: "sql_commit drv db = (r, db') \<Longrightarrow>
      rows db' = (if r = None then rows db else saved db)"
    and query_rows: "sql_query drv querySQL [u] db = Inr (ns, None) \<Longrightarrow>
      distinct ns \<and> set ns = {n. (u, n) \<in> rows db}"

text \<open>
  A database that is reachable and has room: statements within SQLite's default limit of
  32766 variables that break no constraint succeed.
\<close>

locale sqlite_available = sqlite +
  assumes begin_ok: "\<exists>tx. sql_begin drv db = Inr tx"
    and delete_ok: "length args = n \<Longrightarrow> n \<le> 32766 \<Longrightarrow>
      \<exists>db'. sql_exec drv (deleteSQL (marks n)) args db = (None, db')"
    and insert_ok: "length args = 2 * n \<Longrightarrow> 0 < n \<Longrightarrow> 2 * n \<le> 32766 \<Longrightarrow>
      distinct (pairs args) \<Longrightarrow> set (pairs args) \<inter> rows db = {} \<Longrightarrow>
      \<exists>db'. sql_exec drv (insertSQL (tuples n)) args db = (None, db')"
    and commit_ok: "\<exists>db'. sql_commit drv db = (None, db')"
    and query_ok: "\<exists>ns. sql_query drv querySQL [u] db = Inr (ns, None)"

text \<open>
  The contract the object table relies on: saving a table of locations replaces the
  locations of exactly the objects it mentions, or fails and changes nothing; loading
  gives the locations of an object.
\<close>

locale location_store =
  fixes save :: "u64 list \<Rightarrow> u64 list \<Rightarrow> (u64 \<rightharpoonup> u64 list) \<Rightarrow> 's \<Rightarrow> go_error option \<times> 's"
    and load :: "'s \<Rightarrow> u64 \<Rightarrow> u64 list rpc"
    and held :: "'s \<Rightarrow> u64 \<Rightarrow> u64 set"
  assumes save_held: "save ks ks' m s = (None, s') \<Longrightarrow> map_order ks m \<Longrightarrow> map_order ks' m \<Longrightarrow>
      held s' u = (case m u of Some ns \<Rightarrow> set ns | None \<Rightarrow> held s u)"
    and save_error: "save ks ks' m s = (Some e, s') \<Longrightarrow> held s' = held s"
    and save_legal: "save ks ks' m s = (None, s') \<Longrightarrow> map_order ks m \<Longrightarrow> map_order ks' m \<Longrightarrow>
      (\<exists>u. lookup_list m u \<noteq> []) \<and> (\<forall>u. distinct (lookup_list m u))"
    and load_held: "load s u = Inr ns \<Longrightarrow> set ns = held s u"

section \<open>Statement texts and their arguments\<close>

lemma driverArgs_Inr: "driverArgs as = Inr bs \<longleftrightarrow> bs = as \<and> (\<forall>a \<in> set as. a < 2 ^ 63)"
  by (induction as arbitrary: bs) (auto split: sum.splits simp: not_le)

lemma Exec_ok_iff: "Exec drv q args db = (None, db') \<longleftrightarrow>
    (\<forall>a \<in> set args. a < 2 ^ 63) \<and> sql_exec drv q args db = (None, db')"
  using driverArgs_Inr [of args args]
  by (cases "driverArgs args") (auto simp: Exec_def dest: driverArgs_Inr [THEN iffD1])

lemma scanRows_Inr: "scanRows ns = Inr ms \<Longrightarrow> ms = ns"
  by (induction ns arbitrary: ms) (auto split: sum.splits if_splits)

lemma valueStrings_tuples: "valueStrings ks m = tuples (length (valueStrings ks m))"
  by (induction ks) (auto simp: valueStrings_def map_replicate_const replicate_add)

lemma length_valueArgs: "length (valueArgs ks m) = 2 * length (valueStrings ks m)"
  by (induction ks) (auto simp: valueArgs_def valueStrings_def length_concat comp_def sum_list_triv)

lemma pairs_keyed: "pairs (concat (map (\<lambda>n. [u, n]) ns) @ xs) = map (Pair u) ns @ pairs xs"
  by (induction ns) auto

lemma pairs_valueArgs:
  "pairs (valueArgs ks m) = concat (map (\<lambda>u. map (Pair u) (lookup_list m u)) ks)"
  by (induction ks) (auto simp: valueArgs_def pairs_keyed)

lemma set_pairs_valueArgs:
  "set (pairs (valueArgs ks m)) = {(u, n). u \<in> set ks \<and> n \<in> set (lookup_list m u)}"
  by (auto simp: pairs_valueArgs)

lemma distinct_pairs_valueArgs:
  "distinct ks \<Longrightarrow>
    distinct (pairs (valueArgs ks m)) \<longleftrightarrow> (\<forall>u \<in> set ks. distinct (lookup_list m u))"
  by (induction ks) (auto simp: pairs_valueArgs distinct_map inj_on_def)

lemma valueStrings_Nil: "valueStrings ks m = [] \<longleftrightarrow> (\<forall>u \<in> set ks. lookup_list m u = [])"
  by (auto simp: valueStrings_def)

lemma marks_map: "map (\<lambda>_. ''?'') ks = marks (length ks)"
  by (simp add: map_replicate_const)

section \<open>Saving and loading under the laws of the driver\<close>

context sqlite
begin

lemma Exec_error_rows: "Exec drv q args db = (Some e, db') \<Longrightarrow> rows db' = rows db \<and> saved db' = saved db"
  by (auto simp: Exec_def split: sum.splits dest: exec_error exec_saved)

lemma Exec_delete:
  assumes "Exec drv (deleteSQL (map (\<lambda>_. ''?'') ks)) (deleteArgs ks) db = (None, db')"
  shows "rows db' = {r \<in> rows db. fst r \<notin> set ks}" and "saved db' = saved db"
proof -
  from assms have e: "sql_exec drv (deleteSQL (marks (length ks))) ks db = (None, db')"
    by (simp add: Exec_ok_iff deleteArgs_def map_replicate_const)
  from delete_rows [OF e] show "rows db' = {r \<in> rows db. fst r \<notin> set ks}" by simp
  from exec_saved [OF e] show "saved db' = saved db" .
qed

lemma Exec_insert:
  assumes "Exec drv (insertSQL (valueStrings ks m)) (valueArgs ks m) db = (None, db')"
  shows "valueStrings ks m \<noteq> []" "distinct (pairs (valueArgs ks m))"
    "rows db' = rows db \<union> set (pairs (valueArgs ks m))" "saved db' = saved db"
proof -
  let ?n = "length (valueStrings ks m)"
  from assms have e: "sql_exec drv (insertSQL (tuples ?n)) (valueArgs ks m) db = (None, db')"
    using valueStrings_tuples [of ks m] by (simp add: Exec_ok_iff)
  note i = insert_rows [OF e length_valueArgs]
  from i show "valueStrings ks m \<noteq> []" "distinct (pairs (valueArgs ks m))"
    "rows db' = rows db \<union> set (pairs (valueArgs ks m))" by auto
  from exec_saved [OF e] show "saved db' = saved db" .
qed

lemma insertOrUpdate_error:
  assumes "insertOrUpdateObjectLocations drv ks ks' m db = (Some e, db')"
  shows "rows db' = rows db"
  using assms unfolding insertOrUpdateObjectLocations_def
  by (auto split: sum.splits prod.splits option.splits
      dest!: begin_rows Exec_error_rows Exec_delete(2) Exec_insert(4) commit_rows
      simp: rollback_rows)

lemma insertOrUpdate_ok:
  assumes "insertOrUpdateObjectLocations drv ks ks' m db = (None, db')"
  shows "rows db' = {r \<in> rows db. fst r \<notin> set ks} \<union> set (pairs (valueArgs ks' m))"
    and "valueStrings ks' m \<noteq> []" and "distinct (pairs (valueArgs ks' m))"
proof -
  from assms obtain tx tx1 tx2 where b: "sql_begin drv db = Inr tx"
    and d: "Exec drv (deleteSQL (map (\<lambda>_. ''?'') ks)) (deleteArgs ks) tx = (None, tx1)"
    and i: "Exec drv (insertSQL (valueStrings ks' m)) (valueArgs ks' m) tx1 = (None, tx2)"
    and c: "sql_commit drv tx2 = (None, db')"
    by (auto simp: insertOrUpdateObjectLocations_def split: sum.splits prod.splits option.splits)
  from begin_rows [OF b] Exec_delete [OF d] Exec_insert [OF i] commit_rows [OF c]
  show "rows db' = {r \<in> rows db. fst r \<notin> set ks} \<union> set (pairs (valueArgs ks' m))"
    and "valueStrings ks' m \<noteq> []" and "distinct (pairs (valueArgs ks' m))" by auto
qed

lemma getObjectLocations_ok:
  assumes "getObjectLocations drv db u = Inr ns"
  shows "set ns = {n. (u, n) \<in> rows db}"
  using assms unfolding getObjectLocations_def
  by (auto split: sum.splits prod.splits option.splits if_splits
      dest!: scanRows_Inr query_rows)

end

sublocale sqlite \<subseteq> location_store "insertOrUpdateObjectLocations drv" "getObjectLocations drv"
  "\<lambda>db u. {n. (u, n) \<in> rows db}"
proof
  fix ks ks' m s s' u
  assume ok: "insertOrUpdateObjectLocations drv ks ks' m s = (None, s')"
    and o: "map_order ks m" "map_order ks' m"
  from insertOrUpdate_ok(1) [OF ok] o
  show "{n. (u, n) \<in> rows s'} = (case m u of Some ns \<Rightarrow> set ns | None \<Rightarrow> {n. (u, n) \<in> rows s})"
    by (auto simp: set_pairs_valueArgs map_order_def dom_def lookup_list_def split: option.split)
  from insertOrUpdate_ok(2,3) [OF ok] o
  show "(\<exists>u. lookup_list m u \<noteq> []) \<and> (\<forall>u. distinct (lookup_list m u))"
    by (auto simp: valueStrings_Nil distinct_pairs_valueArgs map_order_def dom_def lookup_list_def
        split: option.splits)
qed (auto dest: insertOrUpdate_error getObjectLocations_ok)

context sqlite
begin

lemmas saving_is_legal = save_legal
lemmas saving_held = save_held

end

context sqlite_available
begin

lemma insertOrUpdate_succeeds:
  assumes "map_order ks m" "map_order ks' m"
    and low: "\<forall>u \<in> dom m. u < 2 ^ 63 \<and> (\<forall>n \<in> set (lookup_list m u). n < 2 ^ 63)"
    and dist: "\<forall>u. distinct (lookup_list m u)"
    and some: "\<exists>u. lookup_list m u \<noteq> []"
    and few: "length ks \<le> 32766" "2 * length (valueStrings ks' m) \<le> 32766"
  shows "\<exists>db'. insertOrUpdateObjectLocations drv ks ks' m db = (None, db')"
proof -
  from assms(1,2) have ks: "distinct ks" "set ks = dom m" "distinct ks'" "set ks' = dom m" by auto
  obtain tx where b: "sql_begin drv db = Inr tx" using begin_ok by blast
  obtain tx1 where d: "sql_exec drv (deleteSQL (marks (length ks))) ks tx = (None, tx1)"
    using delete_ok few by blast
  have r1: "rows tx1 = {r \<in> rows tx. fst r \<notin> set ks}" using delete_rows [OF d] by simp
  let ?n = "length (valueStrings ks' m)"
  have "0 < ?n" using some ks by (auto simp: valueStrings_Nil) (metis domIff lookup_list_simps(1))
  moreover have "distinct (pairs (valueArgs ks' m))" using dist ks by (simp add: distinct_pairs_valueArgs)
  moreover have "set (pairs (valueArgs ks' m)) \<inter> rows tx1 = {}"
    using ks by (auto simp: set_pairs_valueArgs r1)
  ultimately obtain tx2 where
    i: "sql_exec drv (insertSQL (tuples ?n)) (valueArgs ks' m) tx1 = (None, tx2)"
    using insert_ok [OF length_valueArgs] few by blast
  obtain db' where c: "sql_commit drv tx2 = (None, db')" using commit_ok by blast
  have "\<forall>a \<in> set ks. a < 2 ^ 63" "\<forall>a \<in> set (valueArgs ks' m). a < 2 ^ 63"
    using low ks by (auto simp: valueArgs_def)
  then have "Exec drv (deleteSQL (map (\<lambda>_. ''?'') ks)) (deleteArgs ks) tx = (None, tx1)"
    "Exec drv (insertSQL (valueStrings ks' m)) (valueArgs ks' m) tx1 = (None, tx2)"
    using d i valueStrings_tuples [of ks' m]
    by (simp_all add: Exec_ok_iff deleteArgs_def map_replicate_const)
  with b c show ?thesis by (simp add: insertOrUpdateObjectLocations_def)
qed

end

section \<open>A driver that keeps the laws\<close>

text \<open>
  A table as a list of rows with the rows saved at the start of the transaction. It reads
  the statement shapes of this file and checks the primary key.
\<close>

record table =
  t_rows :: "(u64 \<times> u64) list"
  t_saved :: "(u64 \<times> u64) list"

definition table_exec :: "string \<Rightarrow> u64 list \<Rightarrow> table \<Rightarrow> go_error option \<times> table" where
  "table_exec q args t =
     (if q = deleteSQL (marks (length args))
      then (None, t\<lparr>t_rows := filter (\<lambda>r. fst r \<notin> set args) (t_rows t)\<rparr>)
      else if args \<noteq> [] \<and> q = insertSQL (tuples (length args div 2)) then
        (if distinct (pairs args) \<and> (\<forall>r \<in> set (pairs args). r \<notin> set (t_rows t))
         then (None, t\<lparr>t_rows := t_rows t @ pairs args\<rparr>)
         else (Some (SqlError ''UNIQUE constraint failed''), t))
      else (Some (SqlError ''SQL logic error''), t))"

definition table_query :: "string \<Rightarrow> u64 list \<Rightarrow> table \<Rightarrow> go_error + (u64 list \<times> go_error option)" where
  "table_query q args t =
     (case args of
        [u] \<Rightarrow> Inr (remdups (map snd (filter (\<lambda>r. fst r = u) (t_rows t))), None)
      | _ \<Rightarrow> Inl (SqlError ''not enough args to execute query''))"

definition table_driver :: "table sql_driver" where
  "table_driver =
     \<lparr>sql_prepare = (\<lambda>q t. None),
      sql_exec = table_exec,
      sql_query = table_query,
      sql_begin = (\<lambda>t. Inr (t\<lparr>t_saved := t_rows t\<rparr>)),
      sql_commit = (\<lambda>t. (None, t)),
      sql_rollback = (\<lambda>t. t\<lparr>t_rows := t_saved t\<rparr>)\<rparr>"

lemma table_driver_sels [simp]:
  "sql_exec table_driver = table_exec" "sql_query table_driver = table_query"
  "sql_begin table_driver t = Inr (t\<lparr>t_saved := t_rows t\<rparr>)"
  "sql_commit table_driver t = (None, t)"
  "sql_rollback table_driver t = t\<lparr>t_rows := t_saved t\<rparr>"
  by (simp_all add: table_driver_def)

lemma deleteSQL_not_insertSQL [simp]: "insertSQL xs \<noteq> deleteSQL ys"
  by (simp add: insertSQL_def deleteSQL_def)

interpretation tbl: sqlite_available table_driver "\<lambda>t. set (t_rows t)" "\<lambda>t. set (t_saved t)"
  by unfold_locales
    (auto simp: table_exec_def table_query_def image_iff split: if_splits intro: gr0I)

end
