(* ===== verification/BR_Net.thy ===== *)
theory BR_Net
  imports BR_Prelude
begin

text \<open>
  The parts of Go's \<open>net\<close> package the services rely on to name each other:
  \<open>SplitHostPort\<close> and \<open>JoinHostPort\<close>, as the standard library defines them, and
  \<open>fmt.Sprintf("%s%d:%d", prefix, node, port)\<close>.
\<close>

section \<open>Searching a string\<close>

fun IndexByte :: "string \<Rightarrow> char \<Rightarrow> nat option" where
  "IndexByte [] c = None"
| "IndexByte (x # xs) c = (if x = c then Some 0 else map_option Suc (IndexByte xs c))"

fun LastIndexByte :: "string \<Rightarrow> char \<Rightarrow> nat option" where
  "LastIndexByte [] c = None"
| "LastIndexByte (x # xs) c =
     (case LastIndexByte xs c of
        Some i \<Rightarrow> Some (Suc i)
      | None \<Rightarrow> if x = c then Some 0 else None)"

section \<open>Host and port\<close>

definition addrErr :: "string \<Rightarrow> (string \<times> string) rpc" where
  "addrErr why = Inl (PlainError why)"

definition quoted :: "char \<Rightarrow> string" where
  "quoted c = [CHR 0x27, c, CHR 0x27]"

text \<open>
  The checks that follow once the host is known: no bracket may remain in
  \<open>hostport[j:]\<close> or \<open>hostport[k:]\<close>.
\<close>

definition split_finish ::
  "string \<Rightarrow> string \<Rightarrow> nat \<Rightarrow> nat \<Rightarrow> nat \<Rightarrow> (string \<times> string) rpc" where
  "split_finish hostport host i j k =
     (if IndexByte (drop j hostport) (CHR ''['') \<noteq> None
      then addrErr (''unexpected '' @ quoted (CHR ''['') @ '' in address'')
      else if IndexByte (drop k hostport) (CHR '']'') \<noteq> None
      then addrErr (''unexpected '' @ quoted (CHR '']'') @ '' in address'')
      else Inr (host, drop (Suc i) hostport))"

definition SplitHostPort :: "string \<Rightarrow> (string \<times> string) rpc" where
  "SplitHostPort hostport =
     (case LastIndexByte hostport (CHR '':'') of
        None \<Rightarrow> addrErr ''missing port in address''
      | Some i \<Rightarrow>
          if take 1 hostport = ''['' then
            (case IndexByte hostport (CHR '']'') of
               None \<Rightarrow> addrErr (''missing '' @ quoted (CHR '']'') @ '' in address'')
             | Some e \<Rightarrow>
                 if e + 1 = length hostport then addrErr ''missing port in address''
                 else if e + 1 = i then
                   split_finish hostport (drop 1 (take e hostport)) i 1 (e + 1)
                 else if hostport ! (e + 1) = CHR '':'' then addrErr ''too many colons in address''
                 else addrErr ''missing port in address'')
          else
            (let host = take i hostport in
             if IndexByte host (CHR '':'') \<noteq> None then addrErr ''too many colons in address''
             else split_finish hostport host i 0 0))"

definition JoinHostPort :: "string \<Rightarrow> string \<Rightarrow> string" where
  "JoinHostPort host port =
     (if IndexByte host (CHR '':'') \<noteq> None then ''['' @ host @ '']:'' @ port
      else host @ '':'' @ port)"

text \<open>\<open>fmt.Sprintf("%s%d:%d", prefix, node, port)\<close>, and \<open>":" + strconv.Itoa(port)\<close>.\<close>

definition node_address :: "string \<Rightarrow> int \<Rightarrow> int \<Rightarrow> string" where
  "node_address prefix node port = prefix @ Itoa node @ '':'' @ Itoa port"

definition listen_address :: "int \<Rightarrow> string" where
  "listen_address port = '':'' @ Itoa port"

section \<open>Facts\<close>

lemma IndexByte_None [simp]: "IndexByte s c = None \<longleftrightarrow> c \<notin> set s"
  by (induction s) auto

lemma LastIndexByte_None [simp]: "LastIndexByte s c = None \<longleftrightarrow> c \<notin> set s"
  by (induction s) (auto split: option.splits)

lemma LastIndexByte_append: "c \<notin> set t \<Longrightarrow> LastIndexByte (s @ c # t) c = Some (length s)"
proof (induction s)
  case Nil
  then show ?case by (simp add: LastIndexByte_None [THEN iffD2] del: LastIndexByte_None)
qed simp

lemma IndexByte_append: "c \<notin> set s \<Longrightarrow> IndexByte (s @ c # t) c = Some (length s)"
  by (induction s) auto

lemma Itoa_chars: "c \<in> set (Itoa i) \<Longrightarrow> is_digit c \<or> c = CHR ''-''"
  by (auto simp: Itoa_def dest: dec_digits split: if_splits)

lemma Itoa_plain [simp]:
  "CHR '':'' \<notin> set (Itoa i)" "CHR ''['' \<notin> set (Itoa i)" "CHR '']'' \<notin> set (Itoa i)"
  by (auto dest!: Itoa_chars simp: is_digit_def)

text \<open>Splitting a joined address gives the parts back.\<close>

lemma SplitHostPort_JoinHostPort:
  assumes "CHR ''['' \<notin> set host" "CHR '']'' \<notin> set host"
    and "CHR '':'' \<notin> set port" "CHR ''['' \<notin> set port" "CHR '']'' \<notin> set port"
  shows "SplitHostPort (JoinHostPort host port) = Inr (host, port)"
proof (cases "CHR '':'' \<in> set host")
  case True
  then have j: "JoinHostPort host port = (''['' @ host @ '']'') @ CHR '':'' # port"
    by (simp add: JoinHostPort_def)
  have i: "LastIndexByte (JoinHostPort host port) (CHR '':'') = Some (length host + 2)"
    unfolding j by (subst LastIndexByte_append) (use assms in auto)
  have "JoinHostPort host port = (''['' @ host) @ CHR '']'' # CHR '':'' # port"
    by (simp add: j)
  then have e: "IndexByte (JoinHostPort host port) (CHR '']'') = Some (length host + 1)"
    using assms by (simp add: IndexByte_append)
  show ?thesis
    unfolding SplitHostPort_def i e using assms
    by (simp add: split_finish_def j)
next
  case False
  then have j: "JoinHostPort host port = host @ CHR '':'' # port"
    by (simp add: JoinHostPort_def)
  have i: "LastIndexByte (JoinHostPort host port) (CHR '':'') = Some (length host)"
    unfolding j by (rule LastIndexByte_append) (use assms in auto)
  have h: "take 1 (JoinHostPort host port) \<noteq> ''[''"
    unfolding j using assms(1) by (cases host) auto
  show ?thesis
    unfolding SplitHostPort_def i using assms False h
    by (simp add: split_finish_def j)
qed

end
