(* ===== verification/BR_Log.thy ===== *)
theory BR_Log
  imports BR_Prelude
begin

text \<open>
  Logging: the writer \<open>src/go/customlog/customlog.go\<close> installs and the \<open>LocalLog\<close> helper every
  service has its own copy of. \<open>fmt.Sprintf\<close> and the clock are outside.
\<close>

section \<open>Writing\<close>

text \<open>
  \<open>logWriter.Write\<close> for a formatted time and what writing to standard output returns, a number of
  bytes and an error.
\<close>

definition logWriter_Write :: "string \<Rightarrow> (string \<Rightarrow> nat \<times> go_error option) \<Rightarrow> string \<Rightarrow> nat \<times> go_error option" where
  "logWriter_Write timestamp write data = write (timestamp @ '' '' @ data)"

text \<open>
  The standard logger: its flags (zero for none) and where it writes. A program starts with a date and
  time in front of every message and standard error behind it; \<open>Init\<close>, which every \<open>main\<close> calls
  first, takes both away.
\<close>

datatype log_writer = Stderr | LogWriter

record std_logger =
  log_flags :: nat
  log_output :: log_writer

definition default_logger :: std_logger where
  "default_logger = \<lparr>log_flags = 3, log_output = Stderr\<rparr>"

definition customlog_Init :: "std_logger \<Rightarrow> std_logger" where
  "customlog_Init l = l\<lparr>log_flags := 0, log_output := LogWriter\<rparr>"

text \<open>The standard logger without flags ends every message with a line end and hands it to its writer.\<close>

definition log_line :: "string \<Rightarrow> string" where
  "log_line msg = (if msg \<noteq> [] \<and> last msg = CHR 0x0A then msg else msg @ [CHR 0x0A])"

definition LocalLog :: "string \<Rightarrow> (string \<Rightarrow> 'v list \<Rightarrow> string) \<Rightarrow> string \<Rightarrow> 'v list \<Rightarrow> string" where
  "LocalLog tag sprintf fmt v =
     (let logMessage = (if v = [] then fmt else sprintf fmt v)
      in log_line (''['' @ tag @ ''] '' @ logMessage))"

definition gcsobjtable_LocalLog :: "(string \<Rightarrow> 'v list \<Rightarrow> string) \<Rightarrow> string \<Rightarrow> 'v list \<Rightarrow> string" where
  "gcsobjtable_LocalLog = LocalLog ''gcsobjtable''"

definition lobs_LocalLog :: "(string \<Rightarrow> 'v list \<Rightarrow> string) \<Rightarrow> string \<Rightarrow> 'v list \<Rightarrow> string" where
  "lobs_LocalLog = LocalLog ''lobs''"

definition worker_LocalLog :: "(string \<Rightarrow> 'v list \<Rightarrow> string) \<Rightarrow> string \<Rightarrow> 'v list \<Rightarrow> string" where
  "worker_LocalLog = LocalLog ''worker''"

definition localscheduler_LocalLog :: "(string \<Rightarrow> 'v list \<Rightarrow> string) \<Rightarrow> string \<Rightarrow> 'v list \<Rightarrow> string" where
  "localscheduler_LocalLog = LocalLog ''localscheduler''"

definition globalscheduler_LocalLog :: "(string \<Rightarrow> 'v list \<Rightarrow> string) \<Rightarrow> string \<Rightarrow> 'v list \<Rightarrow> string" where
  "globalscheduler_LocalLog = LocalLog ''global scheduler''"

text \<open>
  What a message becomes on standard output and on standard error, for the header the flags ask for
  and the time of \<open>Write\<close>.
\<close>

definition log_print :: "string \<Rightarrow> string \<Rightarrow> std_logger \<Rightarrow> string \<Rightarrow> string \<times> string" where
  "log_print header timestamp l msg =
     (let line = (if log_flags l = 0 then [] else header) @ log_line msg
      in case log_output l of Stderr \<Rightarrow> ([], line) | LogWriter \<Rightarrow> (timestamp @ '' '' @ line, []))"

section \<open>What a reader of the log sees\<close>

text \<open>
  A format without arguments is logged as it is, percent signs included, and every message is exactly
  one line when it has no line end inside.
\<close>

lemma LocalLog_no_arguments: "LocalLog tag sprintf fmt [] = log_line (''['' @ tag @ ''] '' @ fmt)"
  by (simp add: LocalLog_def)

lemma LocalLog_one_line:
  assumes "CHR 0x0A \<notin> set tag" "CHR 0x0A \<notin> set fmt"
  shows "split_lines (LocalLog tag sprintf fmt []) = [''['' @ tag @ ''] '' @ fmt, []]"
proof -
  let ?m = "''['' @ tag @ ''] '' @ fmt"
  have m: "CHR 0x0A \<notin> set ?m" using assms by simp
  moreover have "last ?m \<in> set ?m" by (rule last_in_set) simp
  ultimately have "log_line ?m = ?m @ CHR 0x0A # []" unfolding log_line_def by metis
  then show ?thesis using split_lines_append[OF m, of "[]"] by (simp add: LocalLog_no_arguments)
qed

text \<open>After \<open>Init\<close> every message is on standard output with exactly one time in front of it.\<close>

lemma Init_log_print: "log_print header timestamp (customlog_Init l) msg = (timestamp @ '' '' @ log_line msg, [])"
  by (simp add: log_print_def customlog_Init_def)

text \<open>
  When standard output takes everything, \<open>Write\<close> reports more bytes than it was given, which the
  contract of an \<open>io.Writer\<close> does not allow; the standard logger ignores the number.
\<close>

lemma Write_reports_too_much:
  assumes "\<And>s. write s = (length s, None)"
  shows "fst (logWriter_Write timestamp write data) = length data + length timestamp + 1"
  by (simp add: logWriter_Write_def assms)

end
