(* ===== verification/GCS_ObjTable.thy ===== *)
theory GCS_ObjTable
  imports GCS_Db BR_Messages BR_Net BR_Log
begin

text \<open>
  The GCS object table (\<open>src/go/cmd/gcsobjtable/main.go\<close>): where each object lives, who
  waits for it, who is generating it and from which request it can be regenerated. Every
  handler is a function of the server state; what it draws from outside (random numbers,
  map iteration order, the peer address) is an argument, and the goroutines it starts are
  part of its result.
\<close>

section \<open>State\<close>

record 'db GCSObjServer =
  objectLocations :: "u64 \<rightharpoonup> u64 list"
  waitlist :: "u64 \<rightharpoonup> string list"
  database :: 'db
  ticker :: "u64 option"
  objectSizes :: "u64 \<rightharpoonup> u64"
  lineage :: "u64 \<rightharpoonup> GlobalScheduleRequest"
  liveNodes :: "u64 \<rightharpoonup> bool"
  generating :: "u64 \<rightharpoonup> u64"

text \<open>
  Goroutines the handlers start: a callback to a waiting client, and the rescheduling of
  an object, which reads \<open>s.lineage\<close> when it runs.
\<close>

datatype gcs_go = GoSendCallback string u64 u64 | GoSchedule u64

text \<open>Calls these goroutines make to other services.\<close>

datatype gcs_call =
    CallLocationFound string LocationFoundCallback
  | CallSchedule "GlobalScheduleRequest option"

section \<open>Start-up\<close>

text \<open>
  \<open>NewGCSObjServer\<close>: the result of \<open>sql.Open\<close> is an argument; errors of the two set-up
  statements are ignored by the source. \<open>time.NewTicker\<close> panics on an interval that is
  not positive; the interval is a 64-bit number of nanoseconds.
\<close>

definition flush_interval :: "int \<Rightarrow> u64" where
  "flush_interval flushIntervalSec = word_of_int flushIntervalSec * 1000000000"

definition NewGCSObjServer ::
  "'db sql_driver \<Rightarrow> 'db rpc \<Rightarrow> int \<Rightarrow> 'db GCSObjServer outcome" where
  "NewGCSObjServer drv opened flushIntervalSec =
     (case opened of
        Inl e \<Rightarrow> Fatal ''sql.Open''
      | Inr db0 \<Rightarrow>
          let db1 = snd (setCacheSizeToZero drv db0);
              db2 = snd (createObjectLocationsTable drv db1);
              server = \<lparr>objectLocations = Map.empty, waitlist = Map.empty, database = db2,
                        ticker = None, objectSizes = Map.empty, lineage = Map.empty,
                        liveNodes = Map.empty, generating = Map.empty\<rparr>
          in if flushIntervalSec \<noteq> - 1 then
               (if sint (flush_interval flushIntervalSec) \<le> 0
                then Fatal ''non-positive interval for NewTicker''
                else Return (server\<lparr>ticker := Some (flush_interval flushIntervalSec)\<rparr>))
             else Return server)"

text \<open>The figure the memory log prints.\<close>

definition bToMb :: "u64 \<Rightarrow> f64" where
  "bToMb b = fl_div binary64 (fl_div binary64 (fl_of_int binary64 (uint b)) (fl_const binary64 1024))
               (fl_const binary64 1024)"

text \<open>
  The loop that logs the memory in use, for the heap sizes it reads one after the other: each round
  prints one line, with the formatting of a \<open>float64\<close> as an argument, and sleeps for five seconds.
\<close>

fun memory_log :: "(f64 \<Rightarrow> string) \<Rightarrow> u64 list \<Rightarrow> (string \<times> nat) list" where
  "memory_log fmt [] = []"
| "memory_log fmt (heapAlloc # rest) =
     (log_line (fmt (bToMb heapAlloc) @ [CHR 0x0A]), 5) # memory_log fmt rest"

section \<open>Flushing\<close>

text \<open>
  \<open>flushToDisk\<close> with its constants (\<open>flush_to_AOF\<close> is false, so the database branch
  runs); the forced garbage collection has no effect on the state.
\<close>

definition flushToDisk ::
  "'db sql_driver \<Rightarrow> u64 list \<Rightarrow> u64 list \<Rightarrow> 'db GCSObjServer \<Rightarrow> go_error option \<times> 'db GCSObjServer" where
  "flushToDisk drv ks ks' s =
     (case insertOrUpdateObjectLocations drv ks ks' (objectLocations s) (database s) of
        (Some e, db') \<Rightarrow> (Some e, s\<lparr>database := db'\<rparr>)
      | (None, db') \<Rightarrow> (None, s\<lparr>database := db', objectLocations := Map.empty\<rparr>))"

text \<open>
  The append-only file: one line per object. The arguments are the errors the file system
  reports, if any, for opening, for each \<open>WriteString\<close> and for the final \<open>Flush\<close>, and
  the content before; a run without error returns the content after.
\<close>

fun aof_values :: "nat \<Rightarrow> u64 list \<Rightarrow> string" where
  "aof_values i [] = []"
| "aof_values i (v # vs) = (if i > 0 then '','' else []) @ FormatUint v @ aof_values (Suc i) vs"

definition aof_line :: "u64 \<Rightarrow> u64 list \<Rightarrow> string" where
  "aof_line key values = FormatUint key @ '': ['' @ aof_values 0 values @ '']'' @ [CHR 0x0A]"

fun aof_write ::
  "go_error option list \<Rightarrow> u64 list \<Rightarrow> (u64 \<rightharpoonup> u64 list) \<Rightarrow> string \<Rightarrow> string rpc" where
  "aof_write errs [] m content = Inr content"
| "aof_write errs (k # ks) m content =
     (case errs of
        Some e # _ \<Rightarrow> Inl (PlainError (''error writing to file: '' @ err_text e))
      | _ \<Rightarrow> aof_write (tl errs) ks m (content @ aof_line k (lookup_list m k)))"

definition WriteObjectLocationsToAOF ::
  "go_error option \<Rightarrow> go_error option list \<Rightarrow> go_error option \<Rightarrow> u64 list \<Rightarrow>
     (u64 \<rightharpoonup> u64 list) \<Rightarrow> string \<Rightarrow> string rpc" where
  "WriteObjectLocationsToAOF openErr writeErrs flushErr ks m content =
     (case openErr of
        Some e \<Rightarrow> Inl (PlainError (''error opening file: '' @ err_text e))
      | None \<Rightarrow>
          (case aof_write writeErrs ks m content of
             Inl e \<Rightarrow> Inl e
           | Inr content' \<Rightarrow>
               (case flushErr of
                  Some e \<Rightarrow> Inl (PlainError (''error flushing buffer: '' @ err_text e))
                | None \<Rightarrow> Inr content')))"

section \<open>Looking up a location\<close>

text \<open>\<open>rand.Intn(n)\<close> for a draw \<open>r\<close>.\<close>

definition Intn :: "nat \<Rightarrow> nat \<Rightarrow> nat" where
  "Intn r n = r mod n"

text \<open>
  The candidates: \<open>make([]uint64, 1, 1)\<close> already holds one zero; the loop appends the
  nodes for which \<open>liveNodes\<close> is false.
\<close>

definition nodesToReturn :: "(u64 \<rightharpoonup> bool) \<Rightarrow> u64 list \<Rightarrow> u64 list" where
  "nodesToReturn live nodeIds = [0] @ filter (\<lambda>n. \<not> lookup_bool live n) nodeIds"

definition pickNode ::
  "nat \<Rightarrow> u64 list \<Rightarrow> 'db GCSObjServer \<Rightarrow> (u64 option \<times> bool \<times> go_error option) \<times> 'db GCSObjServer" where
  "pickNode r nodeIds s =
     (let ns = nodesToReturn (liveNodes s) nodeIds in
      if length ns = 0 then ((None, False, None), s)
      else ((Some (ns ! Intn r (length ns)), True, None), s))"

definition getNodeId ::
  "'db sql_driver \<Rightarrow> nat \<Rightarrow> u64 \<Rightarrow> 'db GCSObjServer \<Rightarrow>
     (u64 option \<times> bool \<times> go_error option) \<times> 'db GCSObjServer" where
  "getNodeId drv r uid s =
     (if lookup_list (objectLocations s) uid = [] then
        (case getObjectLocations drv (database s) uid of
           Inl e \<Rightarrow> ((None, False, Some e), s)
         | Inr nodeIds \<Rightarrow>
             (let s' = s\<lparr>objectLocations := (objectLocations s)(uid \<mapsto> nodeIds)\<rparr> in
              if nodeIds = [] then ((None, False, None), s')
              else pickNode r nodeIds s'))
      else pickNode r (lookup_list (objectLocations s) uid) s)"

section \<open>Callbacks\<close>

definition sendCallback :: "go_error option \<Rightarrow> string \<Rightarrow> u64 \<Rightarrow> u64 \<Rightarrow> gcs_call list" where
  "sendCallback dialErr clientAddress uid nodeId =
     (case dialErr of
        Some e \<Rightarrow> []
      | None \<Rightarrow> [CallLocationFound clientAddress
                   \<lparr>lf_Uid = uid, lf_Location = nodeId, lf_Address = [], lf_Port = 0\<rparr>])"

section \<open>Handlers\<close>

definition NotifyOwns ::
  "NotifyOwnsRequest \<Rightarrow> 'db GCSObjServer \<Rightarrow> StatusResponse ret \<times> gcs_go list \<times> 'db GCSObjServer" where
  "NotifyOwns req s =
     (let uid = no_Uid req; nodeId = no_NodeId req;
          s1 = s\<lparr>generating := (generating s)(uid := None)\<rparr>;
          s2 = (case objectLocations s1 uid of
                  None \<Rightarrow> s1\<lparr>objectLocations := (objectLocations s1)(uid \<mapsto> []),
                             objectSizes := (objectSizes s1)(uid \<mapsto> no_ObjectSize req)\<rparr>
                | Some _ \<Rightarrow> s1);
          s3 = s2\<lparr>objectLocations :=
                    (objectLocations s2)(uid \<mapsto> lookup_list (objectLocations s2) uid @ [nodeId])\<rparr>
      in case waitlist s3 uid of
           Some waitingIPs \<Rightarrow>
             ((Some (status True), None),
              map (\<lambda>clientAddress. GoSendCallback clientAddress uid nodeId) waitingIPs,
              s3\<lparr>waitlist := (waitlist s3)(uid := None)\<rparr>)
         | None \<Rightarrow> ((Some (status True), None), [], s3))"

text \<open>The client's address with its port replaced by the local object store's port.\<close>

definition clientAddress :: "int \<Rightarrow> string \<Rightarrow> string" where
  "clientAddress port peerAddr =
     (let host = (case SplitHostPort peerAddr of Inr (h, _) \<Rightarrow> h | Inl _ \<Rightarrow> peerAddr)
      in JoinHostPort host (Itoa port))"

definition RequestLocation ::
  "'db sql_driver \<Rightarrow> nat \<Rightarrow> int \<Rightarrow> string option \<Rightarrow> RequestLocationRequest \<Rightarrow> 'db GCSObjServer \<Rightarrow>
     RequestLocationResponse ret \<times> gcs_go list \<times> 'db GCSObjServer" where
  "RequestLocation drv r port peer req s =
     (case peer of
        None \<Rightarrow>
          ((None, Some (StatusError Internal
             ''could not get peer information; hence, failed to extract client address'')), [], s)
      | Some peerAddr \<Rightarrow>
          (let addr = clientAddress port peerAddr; uid = rl_Uid req in
           case getNodeId drv r uid s of
             ((nodeId, ex, Some e), s1) \<Rightarrow>
               ((None, Some (StatusError Internal (''could not get node id: '' @ err_text e))), [], s1)
           | ((nodeId, ex, None), s1) \<Rightarrow>
               if \<not> ex then
                 ((Some \<lparr>ImmediatelyFound = False\<rparr>, None), [],
                  s1\<lparr>waitlist := (waitlist s1)(uid \<mapsto> lookup_list (waitlist s1) uid @ [addr])\<rparr>)
               else
                 ((Some \<lparr>ImmediatelyFound = True\<rparr>, None),
                  [GoSendCallback addr uid (the nodeId)], s1)))"

definition GetObjectLocations ::
  "ObjectLocationsRequest \<Rightarrow> 'db GCSObjServer \<Rightarrow> ObjectLocationsResponse ret" where
  "GetObjectLocations req s =
     (Some \<lparr>olresp_Locations =
        foldl (\<lambda>locations u.
                 case objectLocations s u of
                   Some ns \<Rightarrow> locations(u \<mapsto> \<lparr>Locations = ns, Bytes = lookup_u64 (objectSizes s) u\<rparr>)
                 | None \<Rightarrow> locations)
              Map.empty (ol_Args req)\<rparr>, None)"

text \<open>
  \<open>RegisterLineage\<close> has two critical sections: the look-up under the read lock and the
  store under the write lock.
\<close>

definition lineage_check :: "GlobalScheduleRequest \<Rightarrow> 'db GCSObjServer \<Rightarrow> bool" where
  "lineage_check req s \<longleftrightarrow> lineage s (gs_Uid req) \<noteq> None"

definition lineage_store :: "GlobalScheduleRequest \<Rightarrow> 'db GCSObjServer \<Rightarrow> 'db GCSObjServer" where
  "lineage_store req s = s\<lparr>lineage := (lineage s)(gs_Uid req \<mapsto> req)\<rparr>"

definition RegisterLineage ::
  "GlobalScheduleRequest \<Rightarrow> 'db GCSObjServer \<Rightarrow> StatusResponse ret \<times> 'db GCSObjServer" where
  "RegisterLineage req s =
     (if lineage_check req s
      then ((Some (status False),
             Some (StatusError Internal ''tried to register duplicate lineage'')), s)
      else ((Some (status False), None), lineage_store req s))"

definition getNodes :: "u64 \<Rightarrow> 'db GCSObjServer \<Rightarrow> u64 list" where
  "getNodes uid s =
     (case generating s uid of Some node \<Rightarrow> [node] | None \<Rightarrow> []) @
     (case objectLocations s uid of Some objectNodes \<Rightarrow> objectNodes | None \<Rightarrow> [])"

fun allDead :: "(u64 \<rightharpoonup> bool) \<Rightarrow> u64 list \<Rightarrow> bool" where
  "allDead live [] = True"
| "allDead live (node # nodes) = (if lookup_bool live node then False else allDead live nodes)"

text \<open>
  \<open>RegisterLiveNodes\<close>; \<open>ks\<close> is the order in which the union of the two maps' keys is
  visited.
\<close>

definition known_uids :: "'db GCSObjServer \<Rightarrow> u64 set" where
  "known_uids s = dom (generating s) \<union> dom (objectLocations s)"

definition RegisterLiveNodes ::
  "u64 list \<Rightarrow> LiveNodesRequest \<Rightarrow> 'db GCSObjServer \<Rightarrow>
     StatusResponse ret \<times> gcs_go list \<times> 'db GCSObjServer" where
  "RegisterLiveNodes ks req s =
     (let s1 = s\<lparr>liveNodes := ln_LiveNodes req\<rparr>;
          regenerateList = filter (\<lambda>uid. allDead (liveNodes s1) (getNodes uid s1)) ks
      in ((Some (status True), None), map GoSchedule regenerateList, s1))"

definition RegisterGenerating ::
  "GeneratingRequest \<Rightarrow> 'db GCSObjServer \<Rightarrow> StatusResponse ret \<times> 'db GCSObjServer" where
  "RegisterGenerating req s =
     ((Some (status True), None),
      s\<lparr>generating := (generating s)(gen_Uid req \<mapsto> gen_NodeId req)\<rparr>)"

text \<open>Running a goroutine: the dial error, if any, is an argument.\<close>

fun run_go :: "go_error option \<Rightarrow> gcs_go \<Rightarrow> 'db GCSObjServer \<Rightarrow> gcs_call list" where
  "run_go dialErr (GoSendCallback addr uid nodeId) s = sendCallback dialErr addr uid nodeId"
| "run_go dialErr (GoSchedule uid) s = [CallSchedule (lineage s uid)]"

end
