(* ===== verification/GCS_ObjTable_Inv.thy ===== *)
theory GCS_ObjTable_Inv
  imports GCS_ObjTable
begin

text \<open>
  The object table as a state machine: one step per handler call or flush, the states
  reachable from a fresh server, the invariant that ties the waiting list to the known
  locations, and the promise that no waiting client is forgotten.
\<close>

section \<open>Steps\<close>

datatype gcs_op =
    OpNotify NotifyOwnsRequest
  | OpRequest nat "string option" RequestLocationRequest
  | OpLineage GlobalScheduleRequest
  | OpLiveNodes "u64 list" LiveNodesRequest
  | OpGenerating GeneratingRequest
  | OpFlush "u64 list" "u64 list"

fun gcs_exec ::
  "'db sql_driver \<Rightarrow> int \<Rightarrow> gcs_op \<Rightarrow> 'db GCSObjServer \<Rightarrow> gcs_go list \<times> 'db GCSObjServer" where
  "gcs_exec drv port (OpNotify req) s = snd (NotifyOwns req s)"
| "gcs_exec drv port (OpRequest r peer req) s = snd (RequestLocation drv r port peer req s)"
| "gcs_exec drv port (OpLineage req) s = ([], snd (RegisterLineage req s))"
| "gcs_exec drv port (OpLiveNodes ks req) s = snd (RegisterLiveNodes ks req s)"
| "gcs_exec drv port (OpGenerating req) s = ([], snd (RegisterGenerating req s))"
| "gcs_exec drv port (OpFlush ks ks') s = ([], snd (flushToDisk drv ks ks' s))"

text \<open>The iteration orders an operation uses must be orders of the maps it ranges over.\<close>

fun gcs_legal :: "gcs_op \<Rightarrow> 'db GCSObjServer \<Rightarrow> bool" where
  "gcs_legal (OpLiveNodes ks req) s = (distinct ks \<and> set ks = known_uids s)"
| "gcs_legal (OpFlush ks ks') s =
     (map_order ks (objectLocations s) \<and> map_order ks' (objectLocations s))"
| "gcs_legal _ s = True"

text \<open>
  States reachable from \<open>s0\<close>, with the goroutines started on the way, oldest first.
\<close>

inductive gcs_reach ::
  "'db sql_driver \<Rightarrow> int \<Rightarrow> 'db GCSObjServer \<Rightarrow> gcs_go list \<Rightarrow> 'db GCSObjServer \<Rightarrow> bool"
  for drv port s0 where
  start: "gcs_reach drv port s0 [] s0"
| step: "gcs_reach drv port s0 gos s \<Longrightarrow> gcs_legal op s \<Longrightarrow> gcs_exec drv port op s = (g, s') \<Longrightarrow>
     gcs_reach drv port s0 (gos @ g) s'"

section \<open>What each operation does to each field\<close>

lemma getNodeId_frame [br_frame]:
  assumes "getNodeId drv r uid s = (res, s')"
  shows "waitlist s' = waitlist s" "database s' = database s" "generating s' = generating s"
    "lineage s' = lineage s" "liveNodes s' = liveNodes s" "objectSizes s' = objectSizes s"
  using assms
  by (auto simp: getNodeId_def pickNode_def Let_def split: if_splits sum.splits)

lemma pickNode_found [simp]:
  "fst (snd (fst (pickNode r ns s)))" "snd (snd (fst (pickNode r ns s))) = None"
  "snd (pickNode r ns s) = s"
  by (simp_all add: pickNode_def nodesToReturn_def Let_def)

lemma NotifyOwns_waitlist:
  "waitlist (snd (snd (NotifyOwns req s))) = (waitlist s)(no_Uid req := None)"
  by (auto simp: NotifyOwns_def Let_def fun_upd_idem split: option.splits)

lemma NotifyOwns_objectLocations:
  "objectLocations (snd (snd (NotifyOwns req s))) =
     (objectLocations s)(no_Uid req \<mapsto> lookup_list (objectLocations s) (no_Uid req) @ [no_NodeId req])"
  by (auto simp: NotifyOwns_def Let_def split: option.splits)

lemma NotifyOwns_spawned:
  "fst (snd (NotifyOwns req s)) =
     map (\<lambda>a. GoSendCallback a (no_Uid req) (no_NodeId req)) (lookup_list (waitlist s) (no_Uid req))"
  by (auto simp: NotifyOwns_def Let_def lookup_list_def split: option.splits)

lemma NotifyOwns_rest:
  "fst (NotifyOwns req s) = (Some (status True), None)"
  "generating (snd (snd (NotifyOwns req s))) = (generating s)(no_Uid req := None)"
  "objectSizes (snd (snd (NotifyOwns req s))) =
     (if objectLocations s (no_Uid req) = None
      then (objectSizes s)(no_Uid req \<mapsto> no_ObjectSize req) else objectSizes s)"
  by (auto simp: NotifyOwns_def Let_def split: option.splits)

lemma NotifyOwns_database [br_frame]: "database (snd (snd (NotifyOwns req s))) = database s"
  by (auto simp: NotifyOwns_def Let_def split: option.splits)

lemma RegisterLineage_frame [br_frame]:
  "waitlist (snd (RegisterLineage req s)) = waitlist s"
  "objectLocations (snd (RegisterLineage req s)) = objectLocations s"
  "database (snd (RegisterLineage req s)) = database s"
  by (simp_all add: RegisterLineage_def lineage_store_def)

lemma RegisterLiveNodes_frame [br_frame]:
  "waitlist (snd (snd (RegisterLiveNodes ks req s))) = waitlist s"
  "objectLocations (snd (snd (RegisterLiveNodes ks req s))) = objectLocations s"
  "database (snd (snd (RegisterLiveNodes ks req s))) = database s"
  by (simp_all add: RegisterLiveNodes_def Let_def)

lemma RegisterGenerating_frame [br_frame]:
  "waitlist (snd (RegisterGenerating req s)) = waitlist s"
  "objectLocations (snd (RegisterGenerating req s)) = objectLocations s"
  "database (snd (RegisterGenerating req s)) = database s"
  by (simp_all add: RegisterGenerating_def)

lemma flushToDisk_waitlist [br_frame]: "waitlist (snd (flushToDisk drv ks ks' s)) = waitlist s"
  by (auto simp: flushToDisk_def split: prod.splits option.splits)

section \<open>Known locations and the waiting list\<close>

text \<open>
  The abstract table: the nodes known to hold an object, in memory if the object is
  cached there and on disk otherwise.
\<close>

definition locs ::
  "('db \<Rightarrow> (u64 \<times> u64) set) \<Rightarrow> 'db GCSObjServer \<Rightarrow> u64 \<Rightarrow> u64 set" where
  "locs rows s u =
     (if lookup_list (objectLocations s) u = [] then {n. (u, n) \<in> rows (database s)}
      else set (lookup_list (objectLocations s) u))"

text \<open>
  The invariant: whoever waits, waits for an object with no known location; and an empty
  list in memory means nothing on disk.
\<close>

definition gcs_inv :: "('db \<Rightarrow> (u64 \<times> u64) set) \<Rightarrow> 'db GCSObjServer \<Rightarrow> bool" where
  "gcs_inv rows s \<longleftrightarrow>
     (\<forall>u. waitlist s u \<noteq> None \<longrightarrow> locs rows s u = {}) \<and>
     (\<forall>u. objectLocations s u = Some [] \<longrightarrow> (\<forall>n. (u, n) \<notin> rows (database s)))"

lemma gcs_invD:
  assumes "gcs_inv rows s"
  shows "waitlist s u \<noteq> None \<Longrightarrow> locs rows s u = {}"
    and "objectLocations s u = Some [] \<Longrightarrow> (u, n) \<notin> rows (database s)"
  using assms by (auto simp: gcs_inv_def)

lemma gcs_inv_cong:
  "waitlist s' = waitlist s \<Longrightarrow> objectLocations s' = objectLocations s \<Longrightarrow>
    database s' = database s \<Longrightarrow> gcs_inv rows s' = gcs_inv rows s"
  by (simp add: gcs_inv_def locs_def)

lemma locs_waitlist_upd [simp]: "locs rows (s\<lparr>waitlist := w\<rparr>) = locs rows s"
  by (simp add: locs_def fun_eq_iff)

lemma locs_empty_iff:
  "locs rows s u = {} \<longleftrightarrow>
    lookup_list (objectLocations s) u = [] \<and> (\<forall>n. (u, n) \<notin> rows (database s))"
  by (auto simp: locs_def)

context sqlite
begin

lemma getNodeId_cases:
  assumes "getNodeId drv r uid s = ((n, ex, e), s')"
  shows "(\<exists>x. e = Some x \<and> \<not> ex \<and> s' = s) \<or>
    (e = None \<and> (ex \<longleftrightarrow> locs rows s uid \<noteq> {}) \<and> (ex \<longleftrightarrow> n \<noteq> None) \<and>
     set (lookup_list (objectLocations s') uid) = locs rows s uid \<and>
     (\<forall>u. u \<noteq> uid \<longrightarrow> objectLocations s' u = objectLocations s u))"
proof (cases "lookup_list (objectLocations s) uid = []")
  case False
  with assms have "pickNode r (lookup_list (objectLocations s) uid) s = ((n, ex, e), s')"
    by (simp add: getNodeId_def)
  with False show ?thesis
    by (auto simp: pickNode_def nodesToReturn_def Let_def locs_def)
next
  case True
  show ?thesis
  proof (cases "getObjectLocations drv (database s) uid")
    case (Inl x)
    with True assms show ?thesis by (auto simp: getNodeId_def)
  next
    case (Inr ns)
    let ?s1 = "s\<lparr>objectLocations := (objectLocations s)(uid \<mapsto> ns)\<rparr>"
    have l: "locs rows s uid = set ns"
      using True getObjectLocations_ok [OF Inr] by (simp add: locs_def)
    from True Inr assms have
      "(if ns = [] then ((None, False, None), ?s1) else pickNode r ns ?s1) = ((n, ex, e), s')"
      by (simp add: getNodeId_def Let_def)
    then have "s' = ?s1 \<and> e = None \<and> (ex \<longleftrightarrow> ns \<noteq> []) \<and> (ex \<longleftrightarrow> n \<noteq> None)"
      by (auto simp: pickNode_def nodesToReturn_def Let_def split: if_splits)
    with l show ?thesis by (cases ns) auto
  qed
qed

lemma NotifyOwns_inv: "gcs_inv rows s \<Longrightarrow> gcs_inv rows (snd (snd (NotifyOwns req s)))"
  by (auto simp: gcs_inv_def locs_def NotifyOwns_waitlist NotifyOwns_objectLocations br_frame)

lemma getNodeId_locs:
  assumes g: "getNodeId drv r uid s = ((n, ex, e), s')"
  shows "locs rows s' = locs rows s"
proof
  fix u
  note f = getNodeId_frame(2) [OF g]
  from getNodeId_cases [OF g] show "locs rows s' u = locs rows s u"
  proof (elim disjE conjE exE)
    assume *: "set (lookup_list (objectLocations s') uid) = locs rows s uid"
      "\<forall>u. u \<noteq> uid \<longrightarrow> objectLocations s' u = objectLocations s u"
    show ?thesis
    proof (cases "u = uid")
      case True
      with * f locs_empty_iff [of rows s uid] show ?thesis by (auto simp: locs_def [of rows s'])
    next
      case False
      with * f show ?thesis by (simp add: locs_def lookup_list_def)
    qed
  qed simp
qed

lemma getNodeId_inv:
  assumes inv: "gcs_inv rows s" and g: "getNodeId drv r uid s = ((n, ex, e), s')"
  shows "gcs_inv rows s' \<and> (e = None \<and> \<not> ex \<longrightarrow> locs rows s' uid = {})"
proof -
  note f = getNodeId_frame [OF g] and l = getNodeId_locs [OF g]
  from getNodeId_cases [OF g] show ?thesis
  proof (elim disjE conjE exE)
    fix x
    assume "\<not> ex" "s' = s" "e = Some x"
    with inv show ?thesis by simp
  next
    assume *: "e = None" "ex \<longleftrightarrow> locs rows s uid \<noteq> {}"
      "set (lookup_list (objectLocations s') uid) = locs rows s uid"
      "\<forall>u. u \<noteq> uid \<longrightarrow> objectLocations s' u = objectLocations s u"
    have "\<forall>m. (u, m) \<notin> rows (database s')" if "objectLocations s' u = Some []" for u
      using that * f(2) inv locs_empty_iff [of rows s uid]
      by (cases "u = uid") (auto simp: gcs_inv_def)
    with inv f l * show ?thesis by (auto simp: gcs_inv_def)
  qed
qed

lemma RequestLocation_inv:
  assumes "gcs_inv rows s"
  shows "gcs_inv rows (snd (snd (RequestLocation drv r port peer req s)))"
proof (cases peer)
  case None
  with assms show ?thesis by (simp add: RequestLocation_def)
next
  case (Some a)
  obtain n ex e s1 where g: "getNodeId drv r (rl_Uid req) s = ((n, ex, e), s1)"
    by (metis prod.collapse)
  from getNodeId_inv [OF assms g] Some g show ?thesis
    by (cases e; cases ex)
       (auto simp: RequestLocation_def Let_def gcs_inv_def locs_empty_iff)
qed

lemma flushToDisk_inv:
  assumes "gcs_inv rows s"
    and "map_order ks (objectLocations s)" "map_order ks' (objectLocations s)"
  shows "gcs_inv rows (snd (flushToDisk drv ks ks' s)) \<and>
    locs rows (snd (flushToDisk drv ks ks' s)) = locs rows s"
proof -
  obtain e db' where i:
    "insertOrUpdateObjectLocations drv ks ks' (objectLocations s) (database s) = (e, db')"
    by fastforce
  show ?thesis
  proof (cases e)
    case (Some x)
    with i have "rows db' = rows (database s)" using insertOrUpdate_error by blast
    with Some i assms(1) show ?thesis
      by (auto simp: flushToDisk_def gcs_inv_def locs_def fun_eq_iff)
  next
    case None
    with i have h: "{n. (u, n) \<in> rows db'} =
        (case objectLocations s u of Some ns \<Rightarrow> set ns | None \<Rightarrow> {n. (u, n) \<in> rows (database s)})" for u
      using save_held assms(2,3) by blast
    have l: "{n. (u, n) \<in> rows db'} = locs rows s u" for u
      unfolding h using gcs_invD(2) [OF assms(1), of u]
      by (auto simp: locs_def lookup_list_def split: option.splits)
    have "locs rows (snd (flushToDisk drv ks ks' s)) u = locs rows s u" for u
      using l [of u] i None by (auto simp: flushToDisk_def locs_def [of _ "_\<lparr>objectLocations := _\<rparr>"])
    moreover have "gcs_inv rows (snd (flushToDisk drv ks ks' s))"
      unfolding gcs_inv_def
      using calculation assms(1) i None by (auto simp: flushToDisk_waitlist gcs_inv_def)
         (simp add: flushToDisk_def)
    ultimately show ?thesis by auto
  qed
qed

lemma gcs_exec_inv:
  assumes "gcs_inv rows s" "gcs_legal op s" "gcs_exec drv port op s = (g, s')"
  shows "gcs_inv rows s'"
proof (cases op)
  case (OpNotify req)
  then show ?thesis using assms NotifyOwns_inv [of s req] by auto
next
  case (OpRequest r peer req)
  then show ?thesis using assms RequestLocation_inv [of s r port peer req] by auto
next
  case (OpFlush ks ks')
  then show ?thesis using assms flushToDisk_inv [of s ks ks'] by auto
next
  case (OpLineage req)
  then show ?thesis using assms gcs_inv_cong [of s' s rows] by (auto simp: br_frame)
next
  case (OpLiveNodes ks req)
  then show ?thesis using assms gcs_inv_cong [of s' s rows]
    by (metis RegisterLiveNodes_frame gcs_exec.simps(4) snd_conv)
next
  case (OpGenerating req)
  then show ?thesis using assms gcs_inv_cong [of s' s rows] by (auto simp: br_frame)
qed

lemma gcs_reach_inv: "gcs_reach drv port s0 gos s \<Longrightarrow> gcs_inv rows s0 \<Longrightarrow> gcs_inv rows s"
  by (induction rule: gcs_reach.induct) (auto intro: gcs_exec_inv)

end

context sqlite_available
begin

lemma flushToDisk_ok:
  assumes "map_order ks (objectLocations s)" "map_order ks' (objectLocations s)"
    and "\<forall>u \<in> dom (objectLocations s). u < 2 ^ 63 \<and>
      (\<forall>n \<in> set (lookup_list (objectLocations s) u). n < 2 ^ 63)"
    and "\<forall>u. distinct (lookup_list (objectLocations s) u)"
    and "\<exists>u. lookup_list (objectLocations s) u \<noteq> []"
    and "length ks \<le> 32766" "2 * length (valueStrings ks' (objectLocations s)) \<le> 32766"
  shows "fst (flushToDisk drv ks ks' s) = None"
  using insertOrUpdate_succeeds [OF assms, of "database s"] by (auto simp: flushToDisk_def)

end

section \<open>No waiting client is forgotten\<close>

text \<open>
  A client that is on the waiting list of an object stays there until a callback for it
  has been started.
\<close>

definition served :: "string \<Rightarrow> u64 \<Rightarrow> gcs_go list \<Rightarrow> bool" where
  "served a u gos \<longleftrightarrow> (\<exists>n. GoSendCallback a u n \<in> set gos)"

definition waits :: "string \<Rightarrow> u64 \<Rightarrow> 'db GCSObjServer \<Rightarrow> bool" where
  "waits a u s \<longleftrightarrow> a \<in> set (lookup_list (waitlist s) u)"

lemma gcs_inv_waits: "gcs_inv rows s \<Longrightarrow> waits a u s \<Longrightarrow> locs rows s u = {}"
  by (cases "waitlist s u") (auto simp: gcs_inv_def waits_def)

lemma served_append [simp]: "served a u (xs @ ys) \<longleftrightarrow> served a u xs \<or> served a u ys"
  by (auto simp: served_def)

lemma RequestLocation_keeps_waiting:
  assumes "waits a u s"
  shows "waits a u (snd (snd (RequestLocation drv r port peer req s)))"
proof (cases peer)
  case None
  with assms show ?thesis by (simp add: RequestLocation_def)
next
  case (Some p)
  obtain n ex e s1 where g: "getNodeId drv r (rl_Uid req) s = ((n, ex, e), s1)"
    by (metis prod.collapse)
  from getNodeId_frame(1) [OF g] Some g assms show ?thesis
    by (cases e; cases ex) (auto simp: RequestLocation_def Let_def waits_def)
qed

lemma gcs_exec_waiting:
  assumes "waits a u s" "gcs_exec drv port op s = (g, s')"
  shows "waits a u s' \<or> served a u g"
proof (cases op)
  case (OpNotify req)
  with assms(2) have s': "s' = snd (snd (NotifyOwns req s))" and g: "g = fst (snd (NotifyOwns req s))"
    by auto
  show ?thesis
  proof (cases "no_Uid req = u")
    case True
    with assms(1) show ?thesis by (auto simp: g served_def waits_def NotifyOwns_spawned)
  next
    case False
    with assms(1) show ?thesis
      by (auto simp: s' waits_def NotifyOwns_waitlist lookup_list_def)
  qed
next
  case (OpRequest r peer req)
  with assms RequestLocation_keeps_waiting [OF assms(1), of drv r port peer req]
  show ?thesis by auto
next
  case (OpLiveNodes ks req)
  with assms have "s' = snd (snd (RegisterLiveNodes ks req s))" by auto
  with assms(1) show ?thesis by (simp add: waits_def br_frame)
qed (use assms in \<open>auto simp: waits_def br_frame\<close>)

lemma gcs_reach_waiting:
  "gcs_reach drv port s0 gos s \<Longrightarrow> waits a u s0 \<Longrightarrow> waits a u s \<or> served a u gos"
  by (induction rule: gcs_reach.induct) (auto dest: gcs_exec_waiting)

section \<open>Lineage is kept\<close>

lemma RequestLocation_lineage: "lineage (snd (snd (RequestLocation drv r port peer req s))) = lineage s"
  by (auto simp: RequestLocation_def Let_def br_frame split: option.splits prod.splits)

lemma gcs_exec_lineage:
  assumes "lineage s u = Some l"
  shows "lineage (snd (gcs_exec drv port op s)) u = Some l"
proof (cases op)
  case (OpNotify req)
  then show ?thesis using assms by (auto simp: NotifyOwns_def Let_def split: option.splits)
next
  case (OpFlush ks ks')
  then show ?thesis using assms by (auto simp: flushToDisk_def split: prod.splits option.splits)
qed (use assms in \<open>auto simp: RequestLocation_lineage RegisterLineage_def lineage_check_def lineage_store_def
       RegisterLiveNodes_def RegisterGenerating_def Let_def\<close>)

lemma gcs_reach_lineage:
  "gcs_reach drv port s0 gos s \<Longrightarrow> lineage s0 u = Some l \<Longrightarrow> lineage s u = Some l"
proof (induction rule: gcs_reach.induct)
  case (step gos s op g s')
  then show ?case using gcs_exec_lineage[of s u l drv port op] by simp
qed

lemma allDead_iff: "allDead live ns \<longleftrightarrow> (\<forall>n \<in> set ns. \<not> lookup_bool live n)"
  by (induction ns) auto

lemma RegisterLiveNodes_starts:
  assumes "u \<in> set ks" "\<forall>n \<in> set (getNodes u s). \<not> lookup_bool (ln_LiveNodes req) n"
  shows "GoSchedule u \<in> set (fst (snd (RegisterLiveNodes ks req s)))"
    and "lineage (snd (snd (RegisterLiveNodes ks req s))) = lineage s"
  using assms by (simp_all add: RegisterLiveNodes_def Let_def allDead_iff getNodes_def)

section \<open>Asking for an object nobody has\<close>

context sqlite_available
begin

text \<open>
  The client is put on the waiting list, and the object gets an empty list of locations, which makes
  it one the table knows.
\<close>

lemma RequestLocation_unknown:
  assumes "locs rows g (rl_Uid req) = {}" "rl_Uid req < 2 ^ 63"
  shows "snd (RequestLocation drv r port (Some peer) req g) =
    ([], g\<lparr>objectLocations := (objectLocations g)(rl_Uid req \<mapsto> []),
           waitlist := (waitlist g)(rl_Uid req \<mapsto> lookup_list (waitlist g) (rl_Uid req) @ [clientAddress port peer])\<rparr>)"
proof -
  let ?u = "rl_Uid req"
  have mem: "lookup_list (objectLocations g) ?u = []" and disk: "\<forall>k. (?u, k) \<notin> rows (database g)"
    using assms(1) by (simp_all add: locs_empty_iff)
  obtain ns where ns: "sql_query drv querySQL [?u] (database g) = Inr (ns, None)" using query_ok by blast
  with query_rows disk have "ns = []" by fastforce
  with ns have "getObjectLocations drv (database g) ?u = Inr []"
    using assms(2) driverArgs_Inr[of "[?u]" "[?u]"] by (simp add: getObjectLocations_def)
  with mem show ?thesis by (simp add: RequestLocation_def getNodeId_def Let_def)
qed

end

end
