(* ===== verification/GCS_ObjTable_Props.thy ===== *)
theory GCS_ObjTable_Props
  imports GCS_ObjTable_Inv
begin

text \<open>
  What the object table promises: no client that waits for an object is forgotten,
  flushing does not change the known locations, look-ups, notifications and rescheduling
  do what their branches say; and the limits of these promises.
\<close>

section \<open>Concrete states for the witnesses\<close>

definition server_with ::
  "(u64 \<rightharpoonup> u64 list) \<Rightarrow> (u64 \<times> u64) list \<Rightarrow> table GCSObjServer" where
  "server_with m rs =
     \<lparr>objectLocations = m, waitlist = Map.empty, database = \<lparr>t_rows = rs, t_saved = []\<rparr>,
      ticker = None, objectSizes = Map.empty, lineage = Map.empty, liveNodes = Map.empty,
      generating = Map.empty\<rparr>"

abbreviation trows :: "table \<Rightarrow> (u64 \<times> u64) set" where
  "trows \<equiv> \<lambda>t. set (t_rows t)"

abbreviation tsaved :: "table \<Rightarrow> (u64 \<times> u64) set" where
  "tsaved \<equiv> \<lambda>t. set (t_saved t)"

lemma table_sqlite [simp]: "sqlite table_driver trows tsaved"
  by unfold_locales

lemma table_available [simp]: "sqlite_available table_driver trows tsaved"
  by unfold_locales

lemma server_with_inv [simp]: "gcs_inv trows (server_with Map.empty rs)"
  by (simp add: gcs_inv_def server_with_def)

lemma server_with_sels [simp]:
  "objectLocations (server_with m rs) = m" "waitlist (server_with m rs) = Map.empty"
  "t_rows (database (server_with m rs)) = rs" "liveNodes (server_with m rs) = Map.empty"
  "generating (server_with m rs) = Map.empty" "lineage (server_with m rs) = Map.empty"
  by (simp_all add: server_with_def)

lemma table_lookup:
  "getObjectLocations table_driver t u =
     (if 2 ^ 63 \<le> u then Inl (SqlError ''uint64 values with high bit set are not supported'')
      else scanRows (remdups (map snd (filter (\<lambda>r. fst r = u) (t_rows t)))))"
  by (simp add: getObjectLocations_def table_query_def split: sum.split)

lemma client_50000: "clientAddress 50000 ''10.0.0.7:4242'' = ''10.0.0.7:50000''"
proof -
  have "Itoa 50000 = ''50000''" by (simp add: Itoa_def dec.simps)
  then show ?thesis
    by (simp add: clientAddress_def SplitHostPort_def split_finish_def JoinHostPort_def)
qed

section \<open>Waiting clients\<close>

text \<open>C10 A client whose request for an object was answered with \<open>ImmediatelyFound = false\<close> is
  not forgotten: in every state reached afterwards in which some location of the object is known,
  in memory or on disk, a callback goroutine for exactly that client and object has been started.\<close>

theorem no_forgotten_client:
  assumes "sqlite drv rows saved" and "gcs_inv rows s"
    and "RequestLocation drv r port (Some peer) req s
      = ((Some \<lparr>ImmediatelyFound = False\<rparr>, None), g, s0)"
    and "gcs_reach drv port s0 gos s'"
    and "locs rows s' (rl_Uid req) \<noteq> {}"
  shows "served (clientAddress port peer) (rl_Uid req) gos"
proof -
  from assms(3) have w: "waits (clientAddress port peer) (rl_Uid req) s0"
    by (auto simp: RequestLocation_def Let_def waits_def split: prod.splits option.splits if_splits)
  from sqlite.RequestLocation_inv [OF assms(1,2)] have "gcs_inv rows s0"
    by (metis assms(3) snd_conv)
  with assms(1,4) have "gcs_inv rows s'" by (blast intro: sqlite.gcs_reach_inv)
  with assms(5) have "\<not> waits (clientAddress port peer) (rl_Uid req) s'"
    by (blast dest: gcs_inv_waits)
  with gcs_reach_waiting [OF assms(4) w] show ?thesis by blast
qed

lemma request_miss:
  "RequestLocation table_driver 0 50000 (Some ''10.0.0.7:4242'') \<lparr>rl_Uid = 5, rl_Requester = 2\<rparr>
     (server_with Map.empty []) =
   ((Some \<lparr>ImmediatelyFound = False\<rparr>, None), [],
    (server_with [5 \<mapsto> []] [])\<lparr>waitlist := [5 \<mapsto> [''10.0.0.7:50000'']]\<rparr>)"
proof -
  have "getNodeId table_driver 0 5 (server_with Map.empty []) =
      ((None, False, None), server_with [5 \<mapsto> []] [])"
    by (simp add: getNodeId_def table_lookup) (simp add: server_with_def)
  with client_50000 show ?thesis by (simp add: RequestLocation_def)
qed

theorem no_forgotten_client_witness:
  "served ''10.0.0.7:50000'' 5
     (fst (snd (NotifyOwns \<lparr>no_Uid = 5, no_NodeId = 3, no_ObjectSize = 8\<rparr>
        ((server_with [5 \<mapsto> []] [])\<lparr>waitlist := [5 \<mapsto> [''10.0.0.7:50000'']]\<rparr>))))"
proof -
  let ?s0 = "(server_with [5 \<mapsto> []] [])\<lparr>waitlist := [5 \<mapsto> [''10.0.0.7:50000'']]\<rparr>"
  let ?n = "\<lparr>no_Uid = 5, no_NodeId = 3, no_ObjectSize = 8\<rparr>"
  have "gcs_reach table_driver 50000 ?s0 ([] @ fst (snd (NotifyOwns ?n ?s0))) (snd (snd (NotifyOwns ?n ?s0)))"
    by (rule gcs_reach.step [OF gcs_reach.start, of "OpNotify ?n"]) simp_all
  from no_forgotten_client [OF table_sqlite server_with_inv request_miss this]
  show ?thesis by (simp add: client_50000 locs_def NotifyOwns_objectLocations)
qed

lemma new_gcs_inv: "NewGCSObjServer drv opened sec = Return s0 \<Longrightarrow> gcs_inv rows s0"
  by (auto simp: NewGCSObjServer_def Let_def gcs_inv_def split: sum.splits if_splits)

text \<open>C18 In every state reachable from a freshly started server, whatever the database held at the
  start, a client waits only for objects with no known location, and an empty list cached in memory
  means that the database has no row for the object.\<close>

theorem reachable_gcs_inv:
  assumes "sqlite drv rows saved" and "NewGCSObjServer drv opened sec = Return s0"
    and "gcs_reach drv port s0 gos s"
  shows "(\<forall>u. waitlist s u \<noteq> None \<longrightarrow> locs rows s u = {}) \<and>
    (\<forall>u n. objectLocations s u = Some [] \<longrightarrow> (u, n) \<notin> rows (database s))"
  using sqlite.gcs_reach_inv[OF assms(1,3) new_gcs_inv[OF assms(2)]] by (auto simp: gcs_inv_def)

lemma fresh_table_server:
  "\<exists>s0. NewGCSObjServer table_driver (Inr \<lparr>t_rows = [(5, 9)], t_saved = []\<rparr>) 1 = Return s0"
  by (simp add: NewGCSObjServer_def Let_def flush_interval_def)

theorem reachable_gcs_inv_witness:
  "\<exists>s0 s. NewGCSObjServer table_driver (Inr \<lparr>t_rows = [(5, 9)], t_saved = []\<rparr>) 1 = Return s0 \<and>
     gcs_reach table_driver 50000 s0 [] s \<and> waitlist s 6 \<noteq> None \<and> locs trows s 6 = {} \<and> locs trows s 5 = {9}"
proof -
  let ?rl = "\<lparr>rl_Uid = 6, rl_Requester = 2\<rparr>"
  obtain s0 where s0: "NewGCSObjServer table_driver (Inr \<lparr>t_rows = [(5, 9)], t_saved = []\<rparr>) 1 = Return s0"
    using fresh_table_server by blast
  then have new: "objectLocations s0 = Map.empty" "trows (database s0) = {(5, 9)}"
    by (auto simp: NewGCSObjServer_def setCacheSizeToZero_def createObjectLocationsTable_def Exec_def Let_def
        table_exec_def deleteSQL_def createTableSQL_def createIndexSQL_def table_driver_def split: if_splits)
  let ?s = "s0\<lparr>objectLocations := [6 \<mapsto> []], waitlist := (waitlist s0)(6 \<mapsto> lookup_list (waitlist s0) 6 @ [''10.0.0.7:50000''])\<rparr>"
  have "snd (RequestLocation table_driver 0 50000 (Some ''10.0.0.7:4242'') ?rl s0) = ([], ?s)"
    using tbl.RequestLocation_unknown[of s0 ?rl 0 50000 "''10.0.0.7:4242''"] new by (simp add: locs_def client_50000)
  then have r: "gcs_reach table_driver 50000 s0 ([] @ []) ?s"
    by (intro gcs_reach.step[OF gcs_reach.start, of "OpRequest 0 (Some ''10.0.0.7:4242'') ?rl"])
      (auto split: prod.splits)
  from reachable_gcs_inv[OF table_sqlite s0 r] have "locs trows ?s 6 = {}" by simp
  moreover have "locs trows ?s 5 = {9}" using new by (auto simp: locs_def)
  ultimately show ?thesis using s0 r by auto
qed



section \<open>Flushing\<close>

text \<open>C13 Flushing refines the identity on the abstract table: the known locations of every object
  are the same before and after, whether the flush succeeds or fails. A flush that succeeds has
  moved the whole in-memory table to disk; one that fails has kept it.\<close>

theorem flushToDisk_refines:
  assumes "sqlite drv rows saved" and "gcs_inv rows s"
    and "map_order ks (objectLocations s)" and "map_order ks' (objectLocations s)"
  shows "locs rows (snd (flushToDisk drv ks ks' s)) = locs rows s \<and>
    objectLocations (snd (flushToDisk drv ks ks' s)) =
      (if fst (flushToDisk drv ks ks' s) = None then Map.empty else objectLocations s)"
  using sqlite.flushToDisk_inv [OF assms]
  by (auto simp: flushToDisk_def split: prod.splits option.splits)

theorem flushToDisk_refines_witness:
  "locs trows (snd (flushToDisk table_driver [] [] (server_with Map.empty [(5, 9)]))) 5 = {9} \<and>
   fst (flushToDisk table_driver [5] [5] (server_with [5 \<mapsto> [3, 4]] [(5, 3)])) = None \<and>
   objectLocations (snd (flushToDisk table_driver [5] [5] (server_with [5 \<mapsto> [3, 4]] [(5, 3)]))) = Map.empty \<and>
   locs trows (snd (flushToDisk table_driver [5] [5] (server_with [5 \<mapsto> [3, 4]] [(5, 3)]))) 5 = {3, 4}"
proof -
  let ?s = "server_with [5 \<mapsto> [3, 4]] [(5, 3)]"
  have ok: "fst (flushToDisk table_driver [5] [5] ?s) = None"
    by (rule tbl.flushToDisk_ok) (auto simp: map_order_def valueStrings_def lookup_list_def)
  have "gcs_inv trows ?s" by (auto simp: gcs_inv_def server_with_def)
  from flushToDisk_refines [OF table_sqlite this, of "[5]" "[5]"] ok
    flushToDisk_refines [OF table_sqlite server_with_inv, of "[]" "[(5, 9)]" "[]"]
  show ?thesis by (auto simp: locs_def map_order_def)
qed

text \<open>A flush whose table breaks no constraint succeeds when the database is available: every
  object and node identifier below \<open>2 ^ 63\<close>, no location listed twice for an object, at least one
  location, and no more SQL variables than SQLite allows.\<close>

theorem flushToDisk_succeeds:
  assumes "sqlite_available drv rows saved"
    and "map_order ks (objectLocations s)" and "map_order ks' (objectLocations s)"
    and "\<forall>u \<in> dom (objectLocations s). u < 2 ^ 63 \<and>
      (\<forall>n \<in> set (lookup_list (objectLocations s) u). n < 2 ^ 63)"
    and "\<forall>u. distinct (lookup_list (objectLocations s) u)"
    and "\<exists>u. lookup_list (objectLocations s) u \<noteq> []"
    and "length ks \<le> 32766" and "2 * length (valueStrings ks' (objectLocations s)) \<le> 32766"
  shows "fst (flushToDisk drv ks ks' s) = None"
  using assms by (rule sqlite_available.flushToDisk_ok)

theorem flushToDisk_succeeds_witness:
  "fst (flushToDisk table_driver [5] [5] (server_with [5 \<mapsto> [3, 4]] [(5, 3)])) = None"
  by (rule flushToDisk_succeeds [OF table_available])
     (auto simp: map_order_def valueStrings_def lookup_list_def)

text \<open>C32 A flush fails, and keeps everything in memory, whenever some object lists the same node
  twice or no object has any location at all: the primary key, respectively the grammar of
  \<open>INSERT\<close>, rejects the statement the code builds.\<close>

theorem flushToDisk_fails:
  assumes "sqlite drv rows saved"
    and "map_order ks (objectLocations s)" and "map_order ks' (objectLocations s)"
    and "(\<exists>u. \<not> distinct (lookup_list (objectLocations s) u)) \<or>
      (\<forall>u. lookup_list (objectLocations s) u = [])"
  shows "\<exists>e. fst (flushToDisk drv ks ks' s) = Some e \<and>
    objectLocations (snd (flushToDisk drv ks ks' s)) = objectLocations s \<and>
    rows (database (snd (flushToDisk drv ks ks' s))) = rows (database s)"
proof -
  obtain e db' where i:
    "insertOrUpdateObjectLocations drv ks ks' (objectLocations s) (database s) = (e, db')"
    by fastforce
  have "e \<noteq> None"
  proof
    assume "e = None"
    with i have "insertOrUpdateObjectLocations drv ks ks' (objectLocations s) (database s) = (None, db')"
      by simp
    from sqlite.saving_is_legal [OF assms(1) this assms(2,3)] assms(4) show False by blast
  qed
  then show ?thesis
    using i sqlite.insertOrUpdate_error [OF assms(1)] by (auto simp: flushToDisk_def)
qed

theorem flushToDisk_fails_witness:
  "fst (flushToDisk table_driver [5] [5] (server_with [5 \<mapsto> [3, 3]] [])) \<noteq> None"
proof -
  have "\<not> distinct (lookup_list [5 \<mapsto> [3, 3 :: u64]] (5 :: u64))" by simp
  then have "\<exists>u. \<not> distinct (lookup_list (objectLocations (server_with [5 \<mapsto> [3, 3]] [])) u)"
    by (auto simp only: server_with_sels)
  with flushToDisk_fails [OF table_sqlite, of "[5]" "server_with [5 \<mapsto> [3, 3]] []" "[5]"]
  show ?thesis by (auto simp: map_order_def)
qed

text \<open>C33 A notification for an object that is not cached in memory starts a new list: afterwards the
  notifying node is the only known location, whatever rows the database holds for the object, and
  the next successful flush deletes those rows. So a location stored on disk by an earlier flush is
  forgotten, although the node still holds the object.\<close>

theorem NotifyOwns_after_flush_forgets:
  assumes "sqlite drv rows saved" and "objectLocations s (no_Uid req) = None"
    and "snd (snd (NotifyOwns req s)) = s1"
    and "flushToDisk drv ks ks' s1 = (None, s2)"
    and "map_order ks (objectLocations s1)" and "map_order ks' (objectLocations s1)"
  shows "locs rows s1 (no_Uid req) = {no_NodeId req} \<and> locs rows s2 (no_Uid req) = {no_NodeId req}"
proof -
  have l: "objectLocations s1 (no_Uid req) = Some [no_NodeId req]"
    using assms(2,3) NotifyOwns_objectLocations [of req s] by auto
  from assms(4) obtain db' where
    i: "insertOrUpdateObjectLocations drv ks ks' (objectLocations s1) (database s1) = (None, db')"
    and s2: "s2 = s1\<lparr>database := db', objectLocations := Map.empty\<rparr>"
    by (auto simp: flushToDisk_def split: prod.splits option.splits)
  from sqlite.saving_held [OF assms(1) i assms(5,6), of "no_Uid req"] l s2
  show ?thesis by (simp add: locs_def)
qed

theorem NotifyOwns_after_flush_forgets_witness:
  "locs trows (server_with Map.empty [(5, 9)]) 5 = {9} \<and>
   locs trows (snd (snd (NotifyOwns \<lparr>no_Uid = 5, no_NodeId = 3, no_ObjectSize = 8\<rparr>
      (server_with Map.empty [(5, 9)])))) 5 = {3}"
proof -
  let ?s1 = "snd (snd (NotifyOwns \<lparr>no_Uid = 5, no_NodeId = 3, no_ObjectSize = 8\<rparr>
      (server_with Map.empty [(5, 9)])))"
  have m: "objectLocations ?s1 = [5 \<mapsto> [3]]" by (simp add: NotifyOwns_objectLocations)
  have "fst (flushToDisk table_driver [5] [5] ?s1) = None"
    by (rule tbl.flushToDisk_ok) (simp_all add: m map_order_def valueStrings_def)
  then obtain s2 where f: "flushToDisk table_driver [5] [5] ?s1 = (None, s2)"
    by (metis prod.collapse)
  have o: "map_order [5] (objectLocations ?s1)" by (simp add: m map_order_def)
  from NotifyOwns_after_flush_forgets [OF table_sqlite _ refl f o o]
  show ?thesis by (simp add: locs_def)
qed

section \<open>Sizes\<close>

text \<open>C31 A look-up that comes before the object loses the object's size: the miss leaves an empty list of
  locations behind, so that the notification takes the object for a known one and does not record
  the size it brings. The object is reported with zero bytes, where without the look-up it would be
  reported with its size.\<close>

theorem early_lookup_loses_size:
  assumes "sqlite_available drv rows saved" "rl_Uid rl = no_Uid req" "no_Uid req < 2 ^ 63"
    and "locs rows g (no_Uid req) = {}" "objectLocations g (no_Uid req) = None" "objectSizes g (no_Uid req) = None"
    and "snd (RequestLocation drv r port (Some peer) rl g) = (gos, g1)"
  shows "GetObjectLocations \<lparr>ol_Args = [no_Uid req]\<rparr> (snd (snd (NotifyOwns req g1))) =
      (Some \<lparr>olresp_Locations = [no_Uid req \<mapsto> \<lparr>Locations = [no_NodeId req], Bytes = 0\<rparr>]\<rparr>, None) \<and>
    GetObjectLocations \<lparr>ol_Args = [no_Uid req]\<rparr> (snd (snd (NotifyOwns req g))) =
      (Some \<lparr>olresp_Locations = [no_Uid req \<mapsto> \<lparr>Locations = [no_NodeId req], Bytes = no_ObjectSize req\<rparr>]\<rparr>, None)"
  using sqlite_available.RequestLocation_unknown[OF assms(1), of g rl r port peer] assms
  by (auto simp: GetObjectLocations_def NotifyOwns_def lookup_u64_def Let_def split: option.splits)

theorem early_lookup_loses_size_witness:
  "\<exists>gos g1. snd (RequestLocation table_driver 0 50000 (Some ''10.0.0.2:4711'') \<lparr>rl_Uid = 5, rl_Requester = 2\<rparr>
       (server_with Map.empty [])) = (gos, g1) \<and>
     GetObjectLocations \<lparr>ol_Args = [5]\<rparr> (snd (snd (NotifyOwns \<lparr>no_Uid = 5, no_NodeId = 3, no_ObjectSize = 8\<rparr> g1))) =
       (Some \<lparr>olresp_Locations = [5 \<mapsto> \<lparr>Locations = [3], Bytes = 0\<rparr>]\<rparr>, None)"
proof -
  obtain gos g1 where g1: "snd (RequestLocation table_driver 0 50000 (Some ''10.0.0.2:4711'') \<lparr>rl_Uid = 5, rl_Requester = 2\<rparr>
       (server_with Map.empty [])) = (gos, g1)" by fastforce
  from early_lookup_loses_size[OF tbl.sqlite_available_axioms _ _ _ _ _ g1,
      of "\<lparr>no_Uid = 5, no_NodeId = 3, no_ObjectSize = 8\<rparr>"] g1
  show ?thesis by (auto simp: server_with_def locs_def)
qed

section \<open>Look-up, notification, rescheduling\<close>

text \<open>C34 The node \<open>getNodeId\<close> picks is node 0, which the source prepends to the candidates, or a
  recorded location of the object that is \<^emph>\<open>not\<close> marked live. It never picks a live location other
  than node 0; when all recorded locations are live it picks node 0.\<close>

theorem getNodeId_picks_no_live_node:
  assumes "sqlite drv rows saved" and "getNodeId drv r uid s = ((Some n, True, None), s')"
  shows "(n = 0 \<or> n \<in> locs rows s uid \<and> \<not> lookup_bool (liveNodes s) n) \<and>
    ((\<forall>m \<in> locs rows s uid. lookup_bool (liveNodes s) m) \<longrightarrow> n = 0)"
proof -
  obtain ns where ns: "set ns = locs rows s uid"
    and n: "n = nodesToReturn (liveNodes s) ns ! Intn r (length (nodesToReturn (liveNodes s) ns))"
  proof (cases "lookup_list (objectLocations s) uid = []")
    case False
    with assms(2) that [of "lookup_list (objectLocations s) uid"] show ?thesis
      by (auto simp: getNodeId_def pickNode_def nodesToReturn_def Let_def locs_def)
  next
    case True
    with assms(2) obtain ns where l: "getObjectLocations drv (database s) uid = Inr ns"
      and p: "fst (pickNode r ns (s\<lparr>objectLocations := (objectLocations s)(uid \<mapsto> ns)\<rparr>)) = (Some n, True, None)"
      by (auto simp: getNodeId_def Let_def split: sum.splits if_splits)
    from True sqlite.getObjectLocations_ok [OF assms(1) l] have "set ns = locs rows s uid"
      by (simp add: locs_def)
    with p that [of ns] show ?thesis
      by (auto simp: pickNode_def nodesToReturn_def Let_def)
  qed
  have "n \<in> set (nodesToReturn (liveNodes s) ns)"
    unfolding n by (rule nth_mem) (simp add: nodesToReturn_def Intn_def)
  with ns show ?thesis by (auto simp: nodesToReturn_def)
qed

theorem getNodeId_picks_no_live_node_witness:
  "fst (getNodeId table_driver 1 5 ((server_with [5 \<mapsto> [3]] [])\<lparr>liveNodes := [3 \<mapsto> True]\<rparr>))
     = (Some 0, True, None)"
proof -
  let ?s = "(server_with [5 \<mapsto> [3]] [])\<lparr>liveNodes := [3 \<mapsto> True]\<rparr>"
  obtain n where "getNodeId table_driver 1 5 ?s = ((Some n, True, None), ?s)"
    by (simp add: getNodeId_def pickNode_def nodesToReturn_def)
  with getNodeId_picks_no_live_node [OF table_sqlite this] show ?thesis
    by (simp add: locs_def)
qed

text \<open>A notification starts one callback per waiting client, in the order they came, each
  carrying the notifying node; it empties the waiting list of the object and its generating mark,
  appends the node to the list in memory, and leaves all other objects alone.\<close>

theorem NotifyOwns_effect:
  assumes "NotifyOwns req s = (res, gos, s')"
  shows "res = (Some (status True), None) \<and>
    gos = map (\<lambda>a. GoSendCallback a (no_Uid req) (no_NodeId req)) (lookup_list (waitlist s) (no_Uid req)) \<and>
    waitlist s' = (waitlist s)(no_Uid req := None) \<and>
    generating s' = (generating s)(no_Uid req := None) \<and>
    objectLocations s' = (objectLocations s)(no_Uid req \<mapsto>
      lookup_list (objectLocations s) (no_Uid req) @ [no_NodeId req]) \<and>
    objectSizes s' = (if objectLocations s (no_Uid req) = None
      then (objectSizes s)(no_Uid req \<mapsto> no_ObjectSize req) else objectSizes s)"
  using NotifyOwns_waitlist [of req s] NotifyOwns_objectLocations [of req s]
    NotifyOwns_spawned [of req s] NotifyOwns_rest [of req s]
  by (simp only: assms fst_conv snd_conv simp_thms)

theorem NotifyOwns_effect_witness:
  "waitlist (snd (snd (NotifyOwns \<lparr>no_Uid = 5, no_NodeId = 3, no_ObjectSize = 8\<rparr>
     ((server_with Map.empty [])\<lparr>waitlist := [5 \<mapsto> [''a'', ''b'']]\<rparr>)))) = Map.empty"
proof -
  let ?req = "\<lparr>no_Uid = 5, no_NodeId = 3, no_ObjectSize = 8\<rparr>"
  let ?s = "(server_with Map.empty [])\<lparr>waitlist := [5 \<mapsto> [''a'', ''b'']]\<rparr>"
  obtain res gos s' where n: "NotifyOwns ?req ?s = (res, gos, s')" by (cases "NotifyOwns ?req ?s") auto
  from NotifyOwns_effect [OF n] n show ?thesis by simp
qed

text \<open>C20 When the live nodes are registered, exactly those objects are rescheduled, once each, that
  are known in memory or being generated and all of whose holders and generators are not live.\<close>

theorem RegisterLiveNodes_reschedules:
  assumes "distinct ks" and "set ks = known_uids s"
    and "RegisterLiveNodes ks req s = (res, gos, s')"
  shows "distinct gos \<and> liveNodes s' = ln_LiveNodes req \<and>
    (\<forall>u. GoSchedule u \<in> set gos \<longleftrightarrow>
       u \<in> known_uids s \<and>
       (\<forall>n. generating s u = Some n \<or> n \<in> set (lookup_list (objectLocations s) u) \<longrightarrow>
            \<not> lookup_bool (ln_LiveNodes req) n))"
proof -
  have dead: "allDead live ns \<longleftrightarrow> (\<forall>n \<in> set ns. \<not> lookup_bool live n)" for live ns
    by (induction ns) auto
  have nodes: "set (getNodes u s) =
      {n. generating s u = Some n} \<union> set (lookup_list (objectLocations s) u)" for u
    by (auto simp: getNodes_def lookup_list_def split: option.splits)
  have same: "getNodes u (s\<lparr>liveNodes := l\<rparr>) = getNodes u s" for u l
    by (simp add: getNodes_def)
  from assms(3) have g: "gos = map GoSchedule (filter (\<lambda>u. allDead (ln_LiveNodes req) (getNodes u s)) ks)"
    and "liveNodes s' = ln_LiveNodes req"
    by (auto simp: RegisterLiveNodes_def Let_def same)
  moreover have "distinct gos" using assms(1) by (simp add: g distinct_map inj_on_def)
  moreover have "GoSchedule u \<in> set gos \<longleftrightarrow> u \<in> known_uids s \<and>
      (\<forall>n \<in> set (getNodes u s). \<not> lookup_bool (ln_LiveNodes req) n)" for u
    using assms(2) by (auto simp: g dead)
  ultimately show ?thesis by (simp add: nodes) blast
qed

theorem RegisterLiveNodes_reschedules_witness:
  "GoSchedule 5 \<in> set (fst (snd (RegisterLiveNodes [5] \<lparr>ln_LiveNodes = [3 \<mapsto> False]\<rparr>
     (server_with [5 \<mapsto> [3]] []))))"
proof -
  let ?s = "server_with [5 \<mapsto> [3]] []" and ?req = "\<lparr>ln_LiveNodes = [3 \<mapsto> False]\<rparr>"
  obtain res gos s' where r: "RegisterLiveNodes [5] ?req ?s = (res, gos, s')"
    by (cases "RegisterLiveNodes [5] ?req ?s") auto
  from RegisterLiveNodes_reschedules [OF _ _ r] r show ?thesis
    by (simp add: known_uids_def)
qed

text \<open>C35 After a flush that succeeds, an object that nobody is generating is not rescheduled by the
  next report of live nodes, even if every node that holds it is dead: its locations are on disk,
  where the report does not look.\<close>

theorem flush_stops_recovery:
  assumes "flushToDisk drv ks ks' s = (None, s1)"
    and "distinct us" and "set us = known_uids s1" and "generating s u = None"
  shows "GoSchedule u \<notin> set (fst (snd (RegisterLiveNodes us req s1)))"
proof -
  from assms(1) have "objectLocations s1 = Map.empty" "generating s1 = generating s"
    by (auto simp: flushToDisk_def split: prod.splits option.splits)
  with assms(3,4) show ?thesis by (auto simp: RegisterLiveNodes_def Let_def known_uids_def)
qed

theorem flush_stops_recovery_witness:
  "\<exists>s1. flushToDisk table_driver [5] [5] (server_with [5 \<mapsto> [3]] []) = (None, s1) \<and>
     locs trows s1 5 = {3} \<and>
     GoSchedule 5 \<notin> set (fst (snd (RegisterLiveNodes [] \<lparr>ln_LiveNodes = [3 \<mapsto> False]\<rparr> s1)))"
proof -
  let ?s = "server_with [5 \<mapsto> [3]] []"
  have o: "map_order [5] (objectLocations ?s)" by (simp add: map_order_def)
  have "fst (flushToDisk table_driver [5] [5] ?s) = None"
    by (rule tbl.flushToDisk_ok) (simp_all add: map_order_def valueStrings_def)
  then obtain s1 where f: "flushToDisk table_driver [5] [5] ?s = (None, s1)"
    by (metis prod.collapse)
  then have s1: "objectLocations s1 = Map.empty" "generating s1 = Map.empty"
    by (auto simp: flushToDisk_def split: prod.splits option.splits)
  have "gcs_inv trows ?s" by (simp add: gcs_inv_def)
  from tbl.flushToDisk_inv [OF this o o] f have "locs trows s1 5 = {3}" by (simp add: locs_def)
  with f flush_stops_recovery [OF f, of "[]" 5] s1 show ?thesis by (auto simp: known_uids_def)
qed

section \<open>Lineage\<close>

text \<open>Registered one after the other, the first request of an object wins: a second registration
  for the same object is answered with the duplicate error and the stored request does not change.
  Every registration, also a successful one, carries \<open>Success = false\<close> in its response.\<close>

theorem RegisterLineage_first_wins:
  assumes "RegisterLineage req s = ((r1, None), s1)" and "gs_Uid req' = gs_Uid req"
  shows "RegisterLineage req' s1 =
      ((Some (status False), Some (StatusError Internal ''tried to register duplicate lineage'')), s1) \<and>
    lineage s1 (gs_Uid req) = Some req \<and> r1 = Some (status False)"
  using assms by (auto simp: RegisterLineage_def lineage_check_def lineage_store_def split: if_splits)

definition lin_req :: "u64 \<Rightarrow> u64 \<Rightarrow> GlobalScheduleRequest" where
  "lin_req uid name = \<lparr>gs_Uid = uid, gs_Name = name, gs_Args = [], gs_Kwargs = [], gs_Uids = [],
     gs_NewObject = False, gs_NodeId = 0, gs_LocalityFlag = False\<rparr>"

theorem RegisterLineage_first_wins_witness:
  "lineage (snd (RegisterLineage (lin_req 5 1) (server_with Map.empty []))) 5 = Some (lin_req 5 1)"
proof -
  obtain s1 where "RegisterLineage (lin_req 5 1) (server_with Map.empty []) = ((Some (status False), None), s1)"
    by (simp add: RegisterLineage_def lineage_check_def)
  with RegisterLineage_first_wins [OF this refl] show ?thesis by (simp add: lin_req_def)
qed

text \<open>
  Concurrent registrations: each call looks the object up under the read lock and stores
  under the write lock, and other calls may run in between.
\<close>

datatype lin_pc =
    LinStart GlobalScheduleRequest
  | LinChecked GlobalScheduleRequest
  | LinReturned "StatusResponse ret"

record 'db lin_sys =
  lin_server :: "'db GCSObjServer"
  lin_calls :: "nat \<Rightarrow> lin_pc"

inductive lin_step :: "'db lin_sys \<Rightarrow> 'db lin_sys \<Rightarrow> bool" where
  lin_duplicate: "lin_calls c i = LinStart req \<Longrightarrow> lineage_check req (lin_server c) \<Longrightarrow>
    lin_step c (c\<lparr>lin_calls := (lin_calls c)(i := LinReturned (Some (status False),
      Some (StatusError Internal ''tried to register duplicate lineage'')))\<rparr>)"
| lin_fresh: "lin_calls c i = LinStart req \<Longrightarrow> \<not> lineage_check req (lin_server c) \<Longrightarrow>
    lin_step c (c\<lparr>lin_calls := (lin_calls c)(i := LinChecked req)\<rparr>)"
| lin_write: "lin_calls c i = LinChecked req \<Longrightarrow>
    lin_step c (c\<lparr>lin_server := lineage_store req (lin_server c),
      lin_calls := (lin_calls c)(i := LinReturned (Some (status False), None))\<rparr>)"

inductive_cases lin_step_elim: "lin_step c c'"

lemma lin_steps_keep_lineage:
  "lin_step\<^sup>*\<^sup>* c c' \<Longrightarrow> dom (lineage (lin_server c)) \<subseteq> dom (lineage (lin_server c'))"
proof (induction rule: rtranclp_induct)
  case (step c' c'')
  from step.hyps(2) have "dom (lineage (lin_server c')) \<subseteq> dom (lineage (lin_server c''))"
    by (cases rule: lin_step.cases) (auto simp: lineage_store_def)
  with step.IH show ?case by blast
qed simp

text \<open>C36 Two concurrent registrations for the same object can both return without error, the later
  store replacing the earlier one: both pass the look-up before either stores. So the duplicate
  check does not protect the stored request from concurrent callers.\<close>

theorem RegisterLineage_race:
  assumes "gs_Uid req1 = gs_Uid req2" and "lineage (lin_server c) (gs_Uid req1) = None"
    and "i \<noteq> j" and "lin_calls c i = LinStart req1" and "lin_calls c j = LinStart req2"
  shows "\<exists>c'. lin_step\<^sup>*\<^sup>* c c' \<and>
    lin_calls c' i = LinReturned (Some (status False), None) \<and>
    lin_calls c' j = LinReturned (Some (status False), None) \<and>
    lineage (lin_server c') (gs_Uid req1) = Some req2"
proof -
  let ?r = "LinReturned (Some (status False), None)"
  let ?c1 = "c\<lparr>lin_calls := (lin_calls c)(i := LinChecked req1)\<rparr>"
  let ?c2 = "?c1\<lparr>lin_calls := (lin_calls ?c1)(j := LinChecked req2)\<rparr>"
  let ?c3 = "?c2\<lparr>lin_server := lineage_store req1 (lin_server ?c2), lin_calls := (lin_calls ?c2)(i := ?r)\<rparr>"
  let ?c4 = "?c3\<lparr>lin_server := lineage_store req2 (lin_server ?c3), lin_calls := (lin_calls ?c3)(j := ?r)\<rparr>"
  have "lin_step c ?c1" using assms by (intro lin_fresh) (auto simp: lineage_check_def)
  moreover have "lin_step ?c1 ?c2" using assms by (intro lin_fresh) (auto simp: lineage_check_def)
  moreover have "lin_step ?c2 ?c3" using assms by (intro lin_write) auto
  moreover have "lin_step ?c3 ?c4" using assms by (intro lin_write) auto
  ultimately have "lin_step\<^sup>*\<^sup>* c ?c4" by (meson converse_rtranclp_into_rtranclp rtranclp.rtrancl_refl)
  then show ?thesis using assms by (intro exI [of _ ?c4]) (auto simp: lineage_store_def)
qed

theorem RegisterLineage_race_witness:
  "\<exists>c'. lin_step\<^sup>*\<^sup>*
     \<lparr>lin_server = server_with Map.empty [], lin_calls = (\<lambda>i. LinStart (lin_req 5 (of_nat i)))\<rparr> c' \<and>
     lineage (lin_server c') 5 = Some (lin_req 5 2)"
  using RegisterLineage_race [of "lin_req 5 1" "lin_req 5 2"
      "\<lparr>lin_server = server_with Map.empty [], lin_calls = (\<lambda>i. LinStart (lin_req 5 (of_nat i)))\<rparr>" 1 2]
  by (auto simp: lin_req_def)

section \<open>Queries, the append-only file, start-up, addresses\<close>

text \<open>\<open>GetObjectLocations\<close> reports exactly the requested objects that are cached in memory, each
  with its list of nodes and its recorded size.\<close>

theorem GetObjectLocations_reports:
  "GetObjectLocations req s =
     (Some \<lparr>olresp_Locations = (\<lambda>u. if u \<in> set (ol_Args req)
        then map_option (\<lambda>ns. \<lparr>Locations = ns, Bytes = lookup_u64 (objectSizes s) u\<rparr>) (objectLocations s u)
        else None)\<rparr>, None)"
proof -
  let ?f = "\<lambda>locations u. case objectLocations s u of
      Some ns \<Rightarrow> locations(u \<mapsto> \<lparr>Locations = ns, Bytes = lookup_u64 (objectSizes s) u\<rparr>)
    | None \<Rightarrow> locations"
  have "foldl ?f Map.empty us = (\<lambda>u. if u \<in> set us
      then map_option (\<lambda>ns. \<lparr>Locations = ns, Bytes = lookup_u64 (objectSizes s) u\<rparr>) (objectLocations s u)
      else None)" for us
    by (induction us rule: rev_induct) (auto simp: fun_eq_iff split: option.splits)
  then show ?thesis by (simp add: GetObjectLocations_def)
qed

lemma aof_values_Suc: "aof_values (Suc i) vs = concat (map (\<lambda>v. CHR '','' # FormatUint v) vs)"
  by (induction vs arbitrary: i) auto

lemma digits_prefix:
  assumes "FormatUint a @ c # s = FormatUint b @ d # t" "\<not> is_digit c" "\<not> is_digit d"
  shows "a = b \<and> c = d \<and> s = t"
proof -
  have "takeWhile is_digit (FormatUint n @ x # r) = FormatUint n" if "\<not> is_digit x" for n x r
    using that FormatUint_digits by (subst takeWhile_append2) auto
  with assms have "FormatUint a = FormatUint b" by metis
  with assms(1) show ?thesis by simp
qed

lemma aof_tail_inj:
  "concat (map (\<lambda>v. CHR '','' # FormatUint v) vs) @ CHR '']'' # s =
   concat (map (\<lambda>v. CHR '','' # FormatUint v) ws) @ CHR '']'' # t \<Longrightarrow> vs = ws \<and> s = t"
proof (induction vs arbitrary: ws)
  case Nil
  then show ?case by (cases ws) auto
next
  case (Cons v vs)
  then obtain w ws' where ws: "ws = w # ws'" by (cases ws) auto
  obtain c s' where l: "concat (map (\<lambda>v. CHR '','' # FormatUint v) vs) @ CHR '']'' # s = c # s'"
    "\<not> is_digit c" by (cases vs) (auto simp: is_digit_def)
  obtain d t' where r: "concat (map (\<lambda>v. CHR '','' # FormatUint v) ws') @ CHR '']'' # t = d # t'"
    "\<not> is_digit d" by (cases ws') (auto simp: is_digit_def)
  from Cons.prems ws l(1) r(1) have "FormatUint v @ c # s' = FormatUint w @ d # t'" by simp
  from digits_prefix [OF this l(2) r(2)] Cons.IH [of ws'] l(1) r(1) ws show ?case by auto
qed

lemma aof_values_first: "us \<noteq> [] \<Longrightarrow> \<exists>c r. aof_values 0 us = c # r \<and> is_digit c"
proof (cases us)
  case (Cons u us')
  obtain c r where "FormatUint u = c # r" by (cases "FormatUint u") (auto simp: FormatUint_def)
  with Cons FormatUint_digits [of c u] show ?thesis by auto
qed simp

lemma aof_values_bracket: "aof_values 0 us @ x = CHR '']'' # y \<Longrightarrow> us = []"
  by (rule ccontr) (auto dest!: aof_values_first simp: is_digit_def)

lemma aof_line_not_Nil [simp]: "aof_line k vs \<noteq> []"
  by (simp add: aof_line_def)

lemma aof_line_inj: "aof_line k vs @ s = aof_line l ws @ t \<Longrightarrow> k = l \<and> vs = ws \<and> s = t"
proof -
  assume "aof_line k vs @ s = aof_line l ws @ t"
  then have "FormatUint k @ CHR '':'' # ('' ['' @ aof_values 0 vs @ CHR '']'' # CHR 0x0A # s) =
      FormatUint l @ CHR '':'' # ('' ['' @ aof_values 0 ws @ CHR '']'' # CHR 0x0A # t)"
    by (simp add: aof_line_def)
  from digits_prefix [OF this] have kl: "k = l"
    and e: "aof_values 0 vs @ CHR '']'' # CHR 0x0A # s = aof_values 0 ws @ CHR '']'' # CHR 0x0A # t"
    by (auto simp: is_digit_def)
  have tl: "CHR '','' # aof_values 0 us @ r = aof_values 1 us @ r" if "us \<noteq> []" for us r
    using that by (cases us) (auto simp: aof_values_Suc)
  show ?thesis
  proof (cases "vs = [] \<or> ws = []")
    case True
    with e have "vs = []" "ws = []"
      by (auto dest: aof_values_bracket aof_values_bracket [OF sym])
    with e kl show ?thesis by simp
  next
    case False
    with e have "aof_values 1 vs @ CHR '']'' # CHR 0x0A # s = aof_values 1 ws @ CHR '']'' # CHR 0x0A # t"
      using tl by metis
    with aof_tail_inj kl show ?thesis by (fastforce simp: aof_values_Suc)
  qed
qed

lemma aof_write_ok:
  "aof_write [] ks m content = Inr (content @ concat (map (\<lambda>k. aof_line k (lookup_list m k)) ks))"
  by (induction ks arbitrary: content) auto

lemma aof_lines_inj:
  "concat (map (\<lambda>(k, vs). aof_line k vs) es) = concat (map (\<lambda>(k, vs). aof_line k vs) fs) \<Longrightarrow> es = fs"
proof (induction es arbitrary: fs)
  case Nil
  then show ?case by (cases fs) auto
next
  case (Cons e es)
  then obtain f fs' where fs: "fs = f # fs'" by (cases fs; cases e) auto
  from Cons.prems fs have "aof_line (fst e) (snd e) @ concat (map (\<lambda>(k, vs). aof_line k vs) es) =
      aof_line (fst f) (snd f) @ concat (map (\<lambda>(k, vs). aof_line k vs) fs')"
    by (cases e; cases f) simp
  from aof_line_inj [OF this] Cons.IH [of fs'] fs show ?case by (auto simp: prod_eq_iff)
qed

text \<open>The append-only file loses nothing: if two error-free writes to the same file produce the
  same content, they wrote the same objects with the same nodes in the same order.\<close>

theorem AOF_faithful:
  assumes "WriteObjectLocationsToAOF None [] None ks m content = Inr out"
    and "WriteObjectLocationsToAOF None [] None ls m' content = Inr out"
  shows "map (\<lambda>k. (k, lookup_list m k)) ks = map (\<lambda>k. (k, lookup_list m' k)) ls"
proof (rule aof_lines_inj)
  from assms show "concat (map (\<lambda>(k, vs). aof_line k vs) (map (\<lambda>k. (k, lookup_list m k)) ks)) =
      concat (map (\<lambda>(k, vs). aof_line k vs) (map (\<lambda>k. (k, lookup_list m' k)) ls))"
    by (auto simp: WriteObjectLocationsToAOF_def aof_write_ok comp_def)
qed

theorem AOF_faithful_witness:
  "WriteObjectLocationsToAOF None [] None [1] [1 \<mapsto> [10, 20]] [] = Inr (''1: [10,20]'' @ [CHR 0x0A]) \<and>
   map (\<lambda>k. (k, lookup_list [1 \<mapsto> [10, 20]] k)) [1 :: u64] = [(1, [10, 20 :: u64])]"
proof -
  have o: "WriteObjectLocationsToAOF None [] None [1] [1 \<mapsto> [10, 20]] [] = Inr (''1: [10,20]'' @ [CHR 0x0A])"
    by (simp add: WriteObjectLocationsToAOF_def aof_line_def FormatUint_def dec.simps)
  from AOF_faithful [OF o o] o show ?thesis by simp
qed

text \<open>A started server is empty, and flushes periodically unless the interval is \<open>-1\<close>; with any
  other interval that is not positive as a 64-bit number of nanoseconds, or when the database does
  not open, the process ends instead of starting.\<close>

theorem NewGCSObjServer_start:
  "NewGCSObjServer drv opened sec =
     (case opened of
        Inl _ \<Rightarrow> Fatal ''sql.Open''
      | Inr db0 \<Rightarrow>
          if sec \<noteq> - 1 \<and> sint (flush_interval sec) \<le> 0 then Fatal ''non-positive interval for NewTicker''
          else Return \<lparr>objectLocations = Map.empty, waitlist = Map.empty,
            database = snd (createObjectLocationsTable drv (snd (setCacheSizeToZero drv db0))),
            ticker = (if sec = - 1 then None else Some (flush_interval sec)),
            objectSizes = Map.empty, lineage = Map.empty, liveNodes = Map.empty, generating = Map.empty\<rparr>)"
  by (simp add: NewGCSObjServer_def Let_def split: sum.split)

text \<open>The callback goes to the host the request came from, at the port of the local object
  store: the ephemeral port of the connection is replaced and nothing else, also for hosts with
  colons, which are bracketed.\<close>

theorem clientAddress_host:
  assumes "CHR ''['' \<notin> set host" "CHR '']'' \<notin> set host"
    and "CHR '':'' \<notin> set p" "CHR ''['' \<notin> set p" "CHR '']'' \<notin> set p"
  shows "clientAddress port (JoinHostPort host p) = JoinHostPort host (Itoa port) \<and>
    SplitHostPort (clientAddress port (JoinHostPort host p)) = Inr (host, Itoa port)"
  using assms by (simp add: clientAddress_def SplitHostPort_JoinHostPort)

theorem clientAddress_host_witness:
  "clientAddress 7 (JoinHostPort ''fe80::1'' ''4242'') = ''[fe80::1]:7''"
  using clientAddress_host [of "''fe80::1''" "''4242''" 7]
  by (simp add: JoinHostPort_def Itoa_def dec.simps)

end
