(* ===== verification/Local_ObjStore.thy ===== *)
theory Local_ObjStore
  imports BR_Messages BR_Net
begin

text \<open>
  The local object store (\<open>src/go/cmd/localobjstore/main.go\<close>): objects live in POSIX
  shared memory, one file per object under \<open>/dev/shm\<close>, and the server remembers their
  sizes. A \<open>Get\<close> for an object that is not there asks the GCS for a location and blocks on
  a channel until \<open>LocationFound\<close> delivers one.
\<close>

section \<open>Shared memory\<close>

text \<open>
  The part of the machine the server touches: files, open descriptors and the number of
  descriptors handed out (the code never looks at a descriptor's value, so the model does
  not reuse numbers). A system call takes the error the kernel reports, if any.
\<close>

record machine =
  files :: "string \<rightharpoonup> bytes"
  fds :: "nat \<rightharpoonup> string"
  next_fd :: nat

record sys_errors =
  open_err :: "go_error option"
  ftruncate_err :: "go_error option"
  mmap_err :: "go_error option"
  close_err :: "go_error option"
  unlink_err :: "go_error option"

definition no_errors :: sys_errors where
  "no_errors = \<lparr>open_err = None, ftruncate_err = None, mmap_err = None, close_err = None,
                unlink_err = None\<rparr>"

definition resize :: "nat \<Rightarrow> bytes \<Rightarrow> bytes" where
  "resize n bs = take n bs @ replicate (n - length bs) 0"

definition shm_path :: "string \<Rightarrow> string" where
  "shm_path name = ''/dev/shm/'' @ name"

definition sys_open :: "go_error option \<Rightarrow> bool \<Rightarrow> string \<Rightarrow> machine \<Rightarrow> nat rpc \<times> machine" where
  "sys_open err create path m =
     (case err of
        Some e \<Rightarrow> (Inl e, m)
      | None \<Rightarrow>
          if files m path = None \<and> \<not> create then (Inl (SysError ''ENOENT''), m)
          else (Inr (next_fd m),
                m\<lparr>files := (case files m path of
                             None \<Rightarrow> (files m)(path \<mapsto> [])
                           | Some _ \<Rightarrow> files m),
                  fds := (fds m)(next_fd m \<mapsto> path), next_fd := Suc (next_fd m)\<rparr>))"

definition sys_ftruncate :: "go_error option \<Rightarrow> nat \<Rightarrow> int \<Rightarrow> machine \<Rightarrow> go_error option \<times> machine" where
  "sys_ftruncate err fd sz m =
     (case err of
        Some e \<Rightarrow> (Some e, m)
      | None \<Rightarrow>
          if sz < 0 then (Some (SysError ''EINVAL''), m)
          else (case fds m fd of
                 None \<Rightarrow> (Some (SysError ''EBADF''), m)
               | Some path \<Rightarrow>
                   (None, m\<lparr>files := (files m)(path := map_option (resize (nat sz)) (files m path))\<rparr>)))"

text \<open>
  \<open>syscall.Mmap\<close> refuses a length that is not positive. The mapping is named by the file
  behind the descriptor and its length; writing through it changes the file.
\<close>

definition sys_mmap :: "go_error option \<Rightarrow> nat \<Rightarrow> int \<Rightarrow> machine \<Rightarrow> (string \<times> nat) rpc" where
  "sys_mmap err fd sz m =
     (if sz \<le> 0 then Inl (SysError ''EINVAL'')
      else case err of
             Some e \<Rightarrow> Inl e
           | None \<Rightarrow> (case fds m fd of
                        None \<Rightarrow> Inl (SysError ''EBADF'')
                      | Some path \<Rightarrow> Inr (path, nat sz)))"

definition sys_close :: "go_error option \<Rightarrow> nat \<Rightarrow> machine \<Rightarrow> go_error option \<times> machine" where
  "sys_close err fd m =
     (case err of Some e \<Rightarrow> (Some e, m) | None \<Rightarrow> (None, m\<lparr>fds := (fds m)(fd := None)\<rparr>))"

definition sys_unlink :: "go_error option \<Rightarrow> string \<Rightarrow> machine \<Rightarrow> go_error option \<times> machine" where
  "sys_unlink err path m =
     (case err of Some e \<Rightarrow> (Some e, m) | None \<Rightarrow> (None, m\<lparr>files := (files m)(path := None)\<rparr>))"

text \<open>
  Reading through a mapping: the rest of the page that holds the end of the file reads as
  zeros, and touching a page that lies wholly past the end of the file kills the process
  (SIGBUS), which is \<open>None\<close>.
\<close>

definition page_up :: "nat \<Rightarrow> nat" where
  "page_up n = (n + 4095) div 4096 * 4096"

definition read_map :: "string \<times> nat \<Rightarrow> machine \<Rightarrow> bytes option" where
  "read_map sl m =
     (case files m (fst sl) of
        None \<Rightarrow> None
      | Some bs \<Rightarrow> if snd sl \<le> page_up (length bs) then Some (resize (snd sl) bs) else None)"

text \<open>The builtin \<open>copy(dst, src)\<close> into a mapping copies as many bytes as both have.\<close>

definition copy_into :: "string \<times> nat \<Rightarrow> bytes \<Rightarrow> machine \<Rightarrow> machine" where
  "copy_into sl src m =
     (let k = min (snd sl) (length src) in
      m\<lparr>files := (files m)(fst sl := map_option (\<lambda>bs. take k src @ drop k bs) (files m (fst sl)))\<rparr>)"

definition createSharedMemory ::
  "sys_errors \<Rightarrow> string \<Rightarrow> int \<Rightarrow> machine \<Rightarrow> ((string \<times> nat) \<times> nat) rpc \<times> machine" where
  "createSharedMemory errs name sz m =
     (case sys_open (open_err errs) True (shm_path name) m of
        (Inl e, m1) \<Rightarrow> (Inl e, m1)
      | (Inr fd, m1) \<Rightarrow>
          (case sys_ftruncate (ftruncate_err errs) fd sz m1 of
             (Some e, m2) \<Rightarrow> (Inl e, m2)
           | (None, m2) \<Rightarrow>
               (case sys_mmap (mmap_err errs) fd sz m2 of
                  Inl e \<Rightarrow> (Inl e, m2)
                | Inr sl \<Rightarrow> (Inr (sl, fd), m2))))"

definition readSharedMemory ::
  "sys_errors \<Rightarrow> string \<Rightarrow> int \<Rightarrow> machine \<Rightarrow> (string \<times> nat) rpc \<times> machine" where
  "readSharedMemory errs name sz m =
     (case sys_open (open_err errs) False (shm_path name) m of
        (Inl e, m1) \<Rightarrow> (Inl (PlainError (''failed to open shared memory: '' @ err_text e)), m1)
      | (Inr fd, m1) \<Rightarrow>
          (case sys_mmap (mmap_err errs) fd sz m1 of
             Inl e \<Rightarrow> (Inl (PlainError (''failed to mmap shared memory: '' @ err_text e)), m1)
           | Inr sl \<Rightarrow>
               (case sys_close (close_err errs) fd m1 of
                  (Some e, m2) \<Rightarrow>
                    (Inl (PlainError (''failed to close shared memory file descriptor: '' @ err_text e)), m2)
                | (None, m2) \<Rightarrow> (Inr sl, m2))))"

definition deleteSharedMemory ::
  "sys_errors \<Rightarrow> string \<Rightarrow> nat \<Rightarrow> machine \<Rightarrow> go_error option \<times> machine" where
  "deleteSharedMemory errs name fd m =
     (case sys_close (close_err errs) fd m of
        (Some e, m1) \<Rightarrow> (Some e, m1)
      | (None, m1) \<Rightarrow> sys_unlink (unlink_err errs) (shm_path name) m1)"

section \<open>The server\<close>

text \<open>
  \<open>localObjectChannels\<close> holds channel identities; \<open>next_chan\<close> is the next fresh one. The
  \<open>localObjectStore\<close> map of the source is never written. \<open>host\<close> is the machine the server
  runs on.
\<close>

record los_server =
  localObjectStore :: "u64 \<rightharpoonup> bytes"
  los_objectSizes :: "u64 \<rightharpoonup> u64"
  localObjectChannels :: "u64 \<rightharpoonup> nat"
  next_chan :: nat
  localNodeID :: u64
  avgBandwidth :: f32
  host :: machine

definition DEFAULT_AVG_BANDWIDTH :: f32 where
  "DEFAULT_AVG_BANDWIDTH = f32_const (1 / 10)"

definition new_los :: "u64 \<Rightarrow> machine \<Rightarrow> los_server" where
  "new_los nodeId m =
     \<lparr>localObjectStore = Map.empty, los_objectSizes = Map.empty, localObjectChannels = Map.empty,
      next_chan = 0, localNodeID = nodeId, avgBandwidth = DEFAULT_AVG_BANDWIDTH, host = m\<rparr>"

datatype los_call =
    CallNotifyOwns NotifyOwnsRequest
  | CallRequestLocation RequestLocationRequest
  | CallCopy string CopyRequest

text \<open>
  Creating the file of an object and copying the object into it: the code \<open>Store\<close> and the
  caching branch of \<open>Get\<close> share.
\<close>

definition put_shared ::
  "sys_errors \<Rightarrow> u64 \<Rightarrow> bytes \<Rightarrow> los_server \<Rightarrow> go_error option \<times> los_server" where
  "put_shared errs uid bs s =
     (case createSharedMemory errs (FormatUint uid) (int (length bs)) (host s) of
        (Inl e, m1) \<Rightarrow> (Some e, s\<lparr>host := m1\<rparr>)
      | (Inr (sl, fd), m1) \<Rightarrow>
          (None, s\<lparr>host := copy_into sl bs m1,
                   los_objectSizes := (los_objectSizes s)(uid \<mapsto> of_nat (length bs))\<rparr>))"

definition Store ::
  "sys_errors \<Rightarrow> StoreRequest \<Rightarrow> los_server \<Rightarrow> StatusResponse ret \<times> los_call list \<times> los_server" where
  "Store errs req s =
     (case put_shared errs (st_Uid req) (st_ObjectBytes req) s of
        (Some e, s1) \<Rightarrow> ((None, Some e), [], s1)
      | (None, s1) \<Rightarrow>
          ((Some (status True), None),
           [CallNotifyOwns \<lparr>no_Uid = st_Uid req, no_NodeId = localNodeID s,
              no_ObjectSize = of_nat (length (st_ObjectBytes req))\<rparr>],
           s1))"

text \<open>\<open>Get\<close> up to the point where it blocks: an immediate answer, or a fresh channel and a request.\<close>

definition Get_start ::
  "GetRequest \<Rightarrow> los_server \<Rightarrow> GetResponse ret option \<times> los_call list \<times> los_server" where
  "Get_start req s =
     (case los_objectSizes s (get_Uid req) of
        Some val \<Rightarrow>
          (Some (Some \<lparr>gresp_Uid = get_Uid req, gresp_ObjectBytes = [], gresp_Local = True,
                  gresp_Size = val\<rparr>, None), [], s)
      | None \<Rightarrow>
          (None,
           if \<not> get_Testing req
           then [CallRequestLocation \<lparr>rl_Uid = get_Uid req, rl_Requester = localNodeID s\<rparr>] else [],
           s\<lparr>localObjectChannels := (localObjectChannels s)(get_Uid req \<mapsto> next_chan s),
             next_chan := Suc (next_chan s)\<rparr>))"

definition otherLocalAddress :: "string \<Rightarrow> int \<Rightarrow> LocationFoundCallback \<Rightarrow> string" where
  "otherLocalAddress prefix port resp =
     (if lf_Port resp = 0 then node_address prefix (uint (lf_Location resp)) port
      else lf_Address resp @ '':'' @ FormatUint (lf_Port resp))"

abbreviation bare_response :: "u64 \<Rightarrow> GetResponse" where
  "bare_response uid \<equiv> \<lparr>gresp_Uid = uid, gresp_ObjectBytes = [], gresp_Local = False, gresp_Size = 0\<rparr>"

text \<open>
  \<open>Get\<close> after the channel delivered \<open>resp\<close>: dialling and copying may fail; \<open>copied\<close> is what
  the other store's \<open>Copy\<close> returned.
\<close>

definition Get_resume ::
  "sys_errors \<Rightarrow> string \<Rightarrow> int \<Rightarrow> go_error option \<Rightarrow> CopyResponse ret \<Rightarrow> GetRequest \<Rightarrow>
     LocationFoundCallback \<Rightarrow> los_server \<Rightarrow> GetResponse ret \<times> los_call list \<times> los_server" where
  "Get_resume errs prefix port dialErr copied req resp s =
     (let uid = get_Uid req; addr = otherLocalAddress prefix port resp in
      if \<not> get_Copy req then ((Some (bare_response uid), None), [], s)
      else case dialErr of
        Some e \<Rightarrow>
          ((Some (bare_response uid), Some (PlainError (''failed to dial other LOS @:'' @ addr @ '' ''))),
           [], s)
      | None \<Rightarrow>
          (let call = CallCopy addr \<lparr>cp_Uid = lf_Uid resp, cp_Requester = localNodeID s\<rparr> in
           case copied of
             (Some x, None) \<Rightarrow>
               if get_Cache req then
                 (case put_shared errs uid (cpresp_ObjectBytes x) s of
                    (Some e, s1) \<Rightarrow> ((None, Some e), [call], s1)
                  | (None, s1) \<Rightarrow>
                      ((Some \<lparr>gresp_Uid = uid, gresp_ObjectBytes = cpresp_ObjectBytes x,
                         gresp_Local = False,
                         gresp_Size = of_nat (length (cpresp_ObjectBytes x))\<rparr>, None),
                       call # (if lf_Port resp = 0
                               then [CallNotifyOwns \<lparr>no_Uid = lf_Uid resp, no_NodeId = localNodeID s,
                                       no_ObjectSize = 0\<rparr>]
                               else []),
                       s1))
               else ((Some \<lparr>gresp_Uid = uid, gresp_ObjectBytes = cpresp_ObjectBytes x,
                        gresp_Local = False, gresp_Size = 0\<rparr>, None), [call], s)
           | (_, err) \<Rightarrow>
               ((Some (bare_response uid), Some (PlainError (''failed to copy from other LOS @:'' @ addr @ ''. err was: '' @ errv err @ '' ''))),
                [call], s)))"

text \<open>
  \<open>LocationFound\<close> looks its channel up (a missing entry is the nil channel, on which a send
  never completes).
\<close>

definition LocationFound_channel :: "LocationFoundCallback \<Rightarrow> los_server \<Rightarrow> nat option" where
  "LocationFound_channel resp s = localObjectChannels s (lf_Uid resp)"

text \<open>
  \<open>Copy\<close> answers with the mapped slice itself; its bytes are read when the reply is
  marshalled.
\<close>

definition Copy ::
  "sys_errors \<Rightarrow> CopyRequest \<Rightarrow> los_server \<Rightarrow> CopyResponse ret outcome \<times> los_server" where
  "Copy errs req s =
     (case los_objectSizes s (cp_Uid req) of
        None \<Rightarrow>
          (Return (Some \<lparr>cpresp_Uid = cp_Uid req, cpresp_ObjectBytes = []\<rparr>,
                   Some (PlainError ''object was not in LOS'')), s)
      | Some sz \<Rightarrow>
          (case readSharedMemory errs (FormatUint (cp_Uid req)) (sint sz) (host s) of
             (Inl e, m1) \<Rightarrow> (Return (None, Some e), s\<lparr>host := m1\<rparr>)
           | (Inr sl, m1) \<Rightarrow>
               (case read_map sl m1 of
                  None \<Rightarrow> (Fatal ''unexpected fault address'', s\<lparr>host := m1\<rparr>)
                | Some bs \<Rightarrow>
                    (Return (Some \<lparr>cpresp_Uid = cp_Uid req, cpresp_ObjectBytes = bs\<rparr>, None),
                     s\<lparr>host := m1\<rparr>))))"

definition AvgBandwidth :: "los_server \<Rightarrow> BandwidthResponse ret" where
  "AvgBandwidth s = (Some \<lparr>bw_AvgBandwidth = avgBandwidth s\<rparr>, None)"

section \<open>Handlers running at the same time\<close>

text \<open>
  Several calls of \<open>Get\<close> and \<open>LocationFound\<close> run at once. A \<open>Get\<close> first makes its channel
  and sends its request (\<open>GCalled\<close>), then evaluates \<open>s.localObjectChannels[req.Uid]\<close> and
  waits on the channel it finds there (\<open>GWaits\<close>), then goes on with what it received
  (\<open>GResumed\<close>). A \<open>LocationFound\<close> looks its channel up and offers the callback on it
  (\<open>LSends\<close>, \<open>None\<close> being the nil channel); the channels are unbuffered, so both move
  together. \<open>Store\<close> and \<open>Copy\<close> are one step each: the code holds no lock between creating, filling and
  recording an object, but in a running cluster what is stored under a uid again are the same bytes.
\<close>

datatype get_pc =
    GIdle
  | GCalled GetRequest
  | GWaits GetRequest nat
  | GResumed GetRequest LocationFoundCallback
  | GDone "GetResponse ret"

datatype lf_pc = LIdle | LSends LocationFoundCallback "nat option" | LDone

record los_sys =
  srv :: los_server
  gets :: "nat \<Rightarrow> get_pc"
  lfs :: "nat \<Rightarrow> lf_pc"

definition los_start :: "los_server \<Rightarrow> los_sys" where
  "los_start s = \<lparr>srv = s, gets = (\<lambda>_. GIdle), lfs = (\<lambda>_. LIdle)\<rparr>"

inductive los_step :: "string \<Rightarrow> int \<Rightarrow> los_sys \<Rightarrow> los_sys \<Rightarrow> bool" for prefix port where
  get_hit: "gets s i = GIdle \<Longrightarrow> Get_start req (srv s) = (Some r, calls, srv') \<Longrightarrow>
    los_step prefix port s (s\<lparr>srv := srv', gets := (gets s)(i := GDone r)\<rparr>)"
| get_miss: "gets s i = GIdle \<Longrightarrow> Get_start req (srv s) = (None, calls, srv') \<Longrightarrow>
    los_step prefix port s (s\<lparr>srv := srv', gets := (gets s)(i := GCalled req)\<rparr>)"
| get_wait: "gets s i = GCalled req \<Longrightarrow> localObjectChannels (srv s) (get_Uid req) = Some c \<Longrightarrow>
    los_step prefix port s (s\<lparr>gets := (gets s)(i := GWaits req c)\<rparr>)"
| lf_call: "lfs s j = LIdle \<Longrightarrow>
    los_step prefix port s (s\<lparr>lfs := (lfs s)(j := LSends cb (LocationFound_channel cb (srv s)))\<rparr>)"
| handover: "gets s i = GWaits req c \<Longrightarrow> lfs s j = LSends cb (Some c) \<Longrightarrow>
    los_step prefix port s
      (s\<lparr>gets := (gets s)(i := GResumed req cb), lfs := (lfs s)(j := LDone)\<rparr>)"
| get_end: "gets s i = GResumed req cb \<Longrightarrow>
    Get_resume errs prefix port dialErr copied req cb (srv s) = (r, calls, srv') \<Longrightarrow>
    los_step prefix port s (s\<lparr>srv := srv', gets := (gets s)(i := GDone r)\<rparr>)"
| store: "Store errs sreq (srv s) = (r, calls, srv') \<Longrightarrow>
    los_step prefix port s (s\<lparr>srv := srv'\<rparr>)"
| copy: "Copy errs creq (srv s) = (out, srv') \<Longrightarrow>
    los_step prefix port s (s\<lparr>srv := srv'\<rparr>)"

abbreviation los_steps :: "string \<Rightarrow> int \<Rightarrow> los_sys \<Rightarrow> los_sys \<Rightarrow> bool" where
  "los_steps prefix port \<equiv> (los_step prefix port)\<^sup>*\<^sup>*"

end
