(* ===== verification/Local_ObjStore_Props.thy ===== *)
theory Local_ObjStore_Props
  imports Local_ObjStore
begin

text \<open>
  What the local object store promises: an object that was stored is copied out unchanged,
  sizes agree with the files, a \<open>Get\<close> receives a location of the object it asked for, and
  what goes wrong when two calls of \<open>Get\<close> for one object overlap.
\<close>

section \<open>Storing\<close>

lemma shm_path_inj [simp]: "shm_path a = shm_path b \<longleftrightarrow> a = b"
  by (simp add: shm_path_def)

lemma resize_length [simp]: "length (resize n bs) = n"
  by (simp add: resize_def)

lemma resize_same [simp]: "length bs = n \<Longrightarrow> resize n bs = bs"
  by (simp add: resize_def)

lemma page_up_ge [simp]: "n \<le> page_up n"
  unfolding page_up_def by linarith

text \<open>The machine after the file of an object was created, resized and filled.\<close>

definition filled :: "string \<Rightarrow> bytes \<Rightarrow> machine \<Rightarrow> machine" where
  "filled path bs m =
     m\<lparr>files := (files m)(path \<mapsto> bs), fds := (fds m)(next_fd m \<mapsto> path), next_fd := Suc (next_fd m)\<rparr>"

lemma put_shared_ok:
  assumes "open_err errs = None" "ftruncate_err errs = None" "mmap_err errs = None" "bs \<noteq> []"
  shows "put_shared errs uid bs s =
    (None, s\<lparr>host := filled (shm_path (FormatUint uid)) bs (host s),
             los_objectSizes := (los_objectSizes s)(uid \<mapsto> of_nat (length bs))\<rparr>)"
  using assms
  by (simp add: put_shared_def createSharedMemory_def sys_open_def sys_ftruncate_def sys_mmap_def
      copy_into_def filled_def Let_def split: option.split)

text \<open>Which step of \<open>createSharedMemory\<close> fails decides the error.\<close>

definition create_error :: "sys_errors \<Rightarrow> bytes \<Rightarrow> go_error option" where
  "create_error errs bs =
     (case open_err errs of
        Some e \<Rightarrow> Some e
      | None \<Rightarrow> (case ftruncate_err errs of
                   Some e \<Rightarrow> Some e
                 | None \<Rightarrow> if bs = [] then Some (SysError ''EINVAL'') else mmap_err errs))"

lemma put_shared_error: "fst (put_shared errs uid bs s) = create_error errs bs"
  by (auto simp: put_shared_def createSharedMemory_def sys_open_def sys_ftruncate_def sys_mmap_def
      create_error_def split: option.split)

lemma put_shared_fails:
  assumes "create_error errs bs = Some e"
  shows "put_shared errs uid bs s = (Some e, s\<lparr>host := host (snd (put_shared errs uid bs s))\<rparr>)"
    and "p \<noteq> shm_path (FormatUint uid) \<Longrightarrow>
      files (host (snd (put_shared errs uid bs s))) p = files (host s) p"
  using assms
  by (auto simp: put_shared_def createSharedMemory_def sys_open_def sys_ftruncate_def sys_mmap_def
      create_error_def split: option.splits if_splits)

lemma create_error_None:
  "create_error errs bs = None \<longleftrightarrow>
    open_err errs = None \<and> ftruncate_err errs = None \<and> mmap_err errs = None \<and> bs \<noteq> []"
  by (auto simp: create_error_def split: option.splits)

lemma put_shared_cases:
  obtains (ok) "create_error errs bs = None" "bs \<noteq> []" "put_shared errs uid bs s =
      (None, s\<lparr>host := filled (shm_path (FormatUint uid)) bs (host s),
               los_objectSizes := (los_objectSizes s)(uid \<mapsto> of_nat (length bs))\<rparr>)"
  | (fail) e m where "create_error errs bs = Some e" "put_shared errs uid bs s = (Some e, s\<lparr>host := m\<rparr>)"
      "\<And>p. p \<noteq> shm_path (FormatUint uid) \<Longrightarrow> files m p = files (host s) p"
proof (cases "create_error errs bs")
  case None
  then show ?thesis using ok put_shared_ok[of errs bs uid s] by (simp add: create_error_None)
next
  case (Some e)
  then show ?thesis using fail put_shared_fails[OF Some] by blast
qed

lemma put_shared_frame [br_frame]:
  "localObjectChannels (snd (put_shared errs uid bs s)) = localObjectChannels s"
  "next_chan (snd (put_shared errs uid bs s)) = next_chan s"
  "localNodeID (snd (put_shared errs uid bs s)) = localNodeID s"
  by (cases rule: put_shared_cases[of errs bs uid s]; simp)+

section \<open>Copying out\<close>

lemma sint_of_nat_length: "n < 2 ^ 63 \<Longrightarrow> sint (of_nat n :: u64) = int n"
  by (simp add: signed_of_nat signed_take_bit_int_eq_self)

lemma unat_of_nat_length: "n < 2 ^ 63 \<Longrightarrow> unat (of_nat n :: u64) = n"
  by (simp add: unat_of_nat take_bit_nat_eq_self)

text \<open>What the bytes of a stored object are.\<close>

definition object_in :: "los_server \<Rightarrow> u64 \<Rightarrow> bytes option" where
  "object_in s uid =
     (case los_objectSizes s uid of
        None \<Rightarrow> None
      | Some sz \<Rightarrow>
          if 0 < sint sz
          then read_map (shm_path (FormatUint uid), nat (sint sz)) (host s) else None)"

lemma Copy_object_in:
  "object_in s uid = Some bs \<longleftrightarrow>
     (\<exists>s'. Copy no_errors \<lparr>cp_Uid = uid, cp_Requester = r\<rparr> s =
        (Return (Some \<lparr>cpresp_Uid = uid, cpresp_ObjectBytes = bs\<rparr>, None), s'))"
  by (auto simp: object_in_def Copy_def readSharedMemory_def sys_open_def sys_mmap_def sys_close_def
      read_map_def no_errors_def split: option.splits if_splits)

lemma object_in_filled:
  assumes "bs \<noteq> []" "length bs < 2 ^ 63"
  shows "object_in (s\<lparr>host := filled (shm_path (FormatUint uid)) bs (host s),
             los_objectSizes := (los_objectSizes s)(uid \<mapsto> of_nat (length bs))\<rparr>) uid = Some bs"
  using assms by (simp add: object_in_def read_map_def filled_def sint_of_nat_length)

lemma object_in_other:
  assumes "\<And>p. p \<noteq> shm_path (FormatUint uid) \<Longrightarrow> files (host s') p = files (host s) p"
    and "los_objectSizes s' uid' = los_objectSizes s uid'" and "uid' \<noteq> uid"
  shows "object_in s' uid' = object_in s uid'"
  using assms by (simp add: object_in_def read_map_def split: option.split)

text \<open>An object the store can hold: not empty, and its length a Go \<open>int\<close>.\<close>

definition is_object :: "bytes \<Rightarrow> bool" where
  "is_object bs \<longleftrightarrow> bs \<noteq> [] \<and> length bs < 2 ^ 63"

lemma put_shared_object_in:
  assumes "bs \<noteq> []" "length bs < 2 ^ 63" "create_error errs bs = None"
  shows "object_in (snd (put_shared errs uid bs s)) uid = Some bs"
  by (cases rule: put_shared_cases[of errs bs uid s]) (use assms in \<open>simp_all add: object_in_filled\<close>)

lemma put_shared_other:
  assumes "uid' \<noteq> uid"
  shows "object_in (snd (put_shared errs uid bs s)) uid' = object_in s uid'"
  by (cases rule: put_shared_cases[of errs bs uid s])
    (use assms in \<open>auto intro!: object_in_other simp: filled_def\<close>)

section \<open>The store as a keyed store\<close>

definition store_obj :: "u64 \<Rightarrow> bytes \<Rightarrow> los_server \<Rightarrow> los_server" where
  "store_obj uid bs s = snd (snd (Store no_errors \<lparr>st_Uid = uid, st_ObjectBytes = bs\<rparr> s))"

lemma Store_state: "snd (snd (Store errs req s)) = snd (put_shared errs (st_Uid req) (st_ObjectBytes req) s)"
  by (simp add: Store_def split: prod.split option.split)

lemma create_error_no_errors [simp]:
  "create_error no_errors bs = (if bs = [] then Some (SysError ''EINVAL'') else None)"
  by (simp add: create_error_def no_errors_def)

interpretation lo: keyed_store store_obj object_in "\<lambda>uid bs s. is_object bs"
proof unfold_locales
  show "object_in (store_obj k v s) k = Some v" if "is_object v" for k v s
    using that by (simp add: is_object_def store_obj_def Store_state put_shared_object_in)
  show "object_in (store_obj k v s) k' = object_in s k'" if "k' \<noteq> k" for k' k v s
    using that by (simp add: store_obj_def Store_state put_shared_other)
qed

lemma puts_fold: "lo.puts kvs s = fold (\<lambda>(uid, bs). store_obj uid bs) kvs s"
  by (induction kvs arbitrary: s) auto

lemma all_accepted_iff:
  "lo.all_accepted kvs s \<longleftrightarrow> (\<forall>(uid, bs) \<in> set kvs. is_object bs)"
  by (induction kvs arbitrary: s) auto

section \<open>Properties of storing and copying\<close>

text \<open>C14 Whatever sequence of distinct objects was stored, and whatever was there before,
  \<open>Copy\<close> returns the bytes of each of them.\<close>

theorem stored_objects_are_copied:
  assumes "distinct (map fst kvs)" and "(uid, bs) \<in> set kvs"
    and "\<forall>(k, v) \<in> set kvs. is_object v"
  shows "\<exists>s'. Copy no_errors \<lparr>cp_Uid = uid, cp_Requester = r\<rparr>
               (fold (\<lambda>(k, v) s. snd (snd (Store no_errors \<lparr>st_Uid = k, st_ObjectBytes = v\<rparr> s))) kvs s)
             = (Return (Some \<lparr>cpresp_Uid = uid, cpresp_ObjectBytes = bs\<rparr>, None), s')"
proof -
  have "object_in (lo.puts kvs s) uid = Some bs"
    by (rule lo.puts_lookup) (use assms in \<open>simp_all add: all_accepted_iff\<close>)
  then have "\<exists>s'. Copy no_errors \<lparr>cp_Uid = uid, cp_Requester = r\<rparr> (fold (\<lambda>(k, v). store_obj k v) kvs s)
      = (Return (Some \<lparr>cpresp_Uid = uid, cpresp_ObjectBytes = bs\<rparr>, None), s')"
    unfolding puts_fold Copy_object_in[of _ _ _ r] .
  then show ?thesis by (simp add: store_obj_def[abs_def])
qed

theorem stored_objects_are_copied_witness:
  "\<exists>s'. Copy no_errors \<lparr>cp_Uid = 7, cp_Requester = 1\<rparr>
     (fold (\<lambda>(k, v) s. snd (snd (Store no_errors \<lparr>st_Uid = k, st_ObjectBytes = v\<rparr> s)))
        [(7, [1, 2, 3]), (8, [4])] (new_los 2 \<lparr>files = Map.empty, fds = Map.empty, next_fd = 3\<rparr>))
     = (Return (Some \<lparr>cpresp_Uid = 7, cpresp_ObjectBytes = [1, 2, 3]\<rparr>, None), s')"
  by (rule stored_objects_are_copied) (simp_all add: is_object_def)

text \<open>C26 \<open>Store\<close> fails exactly when a system call fails or the object is empty. It then
  reports that error, calls nobody and records no size. On success the GCS is told the owner and the
  size, and the object is recorded with its size. Either way the files of all other objects stay as they were.\<close>

theorem Store_result:
  "(case create_error errs (st_ObjectBytes req) of
     Some e \<Rightarrow>
       fst (Store errs req s) = (None, Some e) \<and> fst (snd (Store errs req s)) = [] \<and>
       los_objectSizes (snd (snd (Store errs req s))) = los_objectSizes s
   | None \<Rightarrow>
       fst (Store errs req s) = (Some (status True), None) \<and>
       fst (snd (Store errs req s)) =
         [CallNotifyOwns \<lparr>no_Uid = st_Uid req, no_NodeId = localNodeID s,
            no_ObjectSize = of_nat (length (st_ObjectBytes req))\<rparr>] \<and>
       los_objectSizes (snd (snd (Store errs req s))) =
         (los_objectSizes s)(st_Uid req \<mapsto> of_nat (length (st_ObjectBytes req)))) \<and>
   (files (host (snd (snd (Store errs req s)))))(shm_path (FormatUint (st_Uid req)) := None) =
     (files (host s))(shm_path (FormatUint (st_Uid req)) := None)"
  by (cases rule: put_shared_cases[of errs "st_ObjectBytes req" "st_Uid req" s])
    (simp_all add: Store_def filled_def fun_eq_iff)

text \<open>C27 Storing an empty object over an existing one is refused, but only after the file has
  been truncated: the store goes on answering that it holds the object, and the next \<open>Copy\<close>
  of it kills the process.\<close>

theorem empty_Store_destroys:
  assumes "object_in s uid = Some bs"
  shows "\<exists>s'. Store no_errors \<lparr>st_Uid = uid, st_ObjectBytes = []\<rparr> s =
                ((None, Some (SysError ''EINVAL'')), [], s') \<and>
              los_objectSizes s' = los_objectSizes s \<and>
              fst (Copy no_errors \<lparr>cp_Uid = uid, cp_Requester = r\<rparr> s') = Fatal ''unexpected fault address''"
  using assms
  by (auto simp: Store_def put_shared_def createSharedMemory_def sys_open_def sys_ftruncate_def
      sys_mmap_def no_errors_def object_in_def Copy_def readSharedMemory_def sys_close_def
      read_map_def page_up_def resize_def split: option.splits if_splits)

theorem empty_Store_destroys_witness:
  "\<exists>s'. Store no_errors \<lparr>st_Uid = 7, st_ObjectBytes = []\<rparr>
     (store_obj 7 [1, 2] (new_los 2 \<lparr>files = Map.empty, fds = Map.empty, next_fd = 3\<rparr>)) =
       ((None, Some (SysError ''EINVAL'')), [], s') \<and>
     los_objectSizes s' = los_objectSizes (store_obj 7 [1, 2] (new_los 2 \<lparr>files = Map.empty, fds = Map.empty, next_fd = 3\<rparr>)) \<and>
     fst (Copy no_errors \<lparr>cp_Uid = 7, cp_Requester = 0\<rparr> s') = Fatal ''unexpected fault address''"
  by (rule empty_Store_destroys[where bs = "[1, 2]"]) (simp add: lo.lookup_put is_object_def)

section \<open>Sizes agree with files\<close>

text \<open>
  The invariant: every recorded size is positive, fits a Go \<open>int\<close>, and is the length of the
  object's file.
\<close>

definition los_inv :: "los_server \<Rightarrow> bool" where
  "los_inv s \<longleftrightarrow>
     (\<forall>uid sz. los_objectSizes s uid = Some sz \<longrightarrow>
        (\<exists>bs. files (host s) (shm_path (FormatUint uid)) = Some bs \<and> is_object bs \<and>
              sz = of_nat (length bs)))"

lemma los_inv_new [simp]: "los_inv (new_los nodeId m)"
  by (simp add: los_inv_def new_los_def)

lemma los_inv_put_shared:
  assumes "los_inv s" "length bs < 2 ^ 63"
    and "create_error errs bs = None \<or> los_objectSizes s uid = None"
  shows "los_inv (snd (put_shared errs uid bs s))"
proof (cases rule: put_shared_cases[of errs bs uid s])
  case ok
  with assms show ?thesis by (auto simp: los_inv_def filled_def is_object_def)
next
  case (fail e m)
  have "files m (shm_path (FormatUint u)) = files (host s) (shm_path (FormatUint u))"
    if "los_objectSizes s u = Some sz" for u sz
    using that assms(3) fail by (intro fail(3)) auto
  with fail assms(1) show ?thesis by (simp add: los_inv_def)
qed

lemma object_in_inv:
  assumes "los_inv s" "los_objectSizes s uid = Some sz"
  shows "\<exists>bs. object_in s uid = Some bs \<and> length bs = unat sz \<and> is_object bs"
proof -
  from assms obtain bs where "files (host s) (shm_path (FormatUint uid)) = Some bs" "is_object bs"
    "sz = of_nat (length bs)" by (auto simp: los_inv_def)
  with assms(2) show ?thesis
    by (simp add: object_in_def read_map_def is_object_def sint_of_nat_length unat_of_nat_length)
qed

text \<open>When the sizes agree with the files, a \<open>Get\<close> that is answered locally is answered at
  once, without error and without calling the GCS, and the object it announces is there: \<open>Copy\<close>
  delivers exactly as many bytes as \<open>Get\<close> announced.\<close>

theorem local_Get_is_backed:
  assumes "los_inv s" and "Get_start req s = (Some r, calls, s')"
  shows "calls = [] \<and> s' = s \<and>
    (\<exists>g bs s''. r = (Some g, None) \<and> gresp_Local g \<and> gresp_Uid g = get_Uid req \<and>
       Copy no_errors \<lparr>cp_Uid = get_Uid req, cp_Requester = q\<rparr> s =
         (Return (Some \<lparr>cpresp_Uid = get_Uid req, cpresp_ObjectBytes = bs\<rparr>, None), s'') \<and>
       length bs = unat (gresp_Size g) \<and> bs \<noteq> [])"
proof -
  from assms(2) obtain sz where sz: "los_objectSizes s (get_Uid req) = Some sz"
    and r: "r = (Some \<lparr>gresp_Uid = get_Uid req, gresp_ObjectBytes = [], gresp_Local = True,
                  gresp_Size = sz\<rparr>, None)" "calls = []" "s' = s"
    by (auto simp: Get_start_def split: option.splits)
  obtain bs where "object_in s (get_Uid req) = Some bs" "length bs = unat sz" "is_object bs"
    using object_in_inv[OF assms(1) sz] by blast
  moreover then obtain s'' where "Copy no_errors \<lparr>cp_Uid = get_Uid req, cp_Requester = q\<rparr> s =
         (Return (Some \<lparr>cpresp_Uid = get_Uid req, cpresp_ObjectBytes = bs\<rparr>, None), s'')"
    using Copy_object_in[of s "get_Uid req" bs q] by auto
  ultimately show ?thesis using r by (auto simp: is_object_def)
qed

theorem local_Get_is_backed_witness:
  "\<exists>g bs s''. fst (Get_start \<lparr>get_Uid = 7, get_Testing = False, get_Copy = True, get_Cache = True\<rparr>
       (store_obj 7 [1, 2] (new_los 2 \<lparr>files = Map.empty, fds = Map.empty, next_fd = 3\<rparr>))) =
         Some (Some g, None) \<and>
     Copy no_errors \<lparr>cp_Uid = 7, cp_Requester = 0\<rparr>
       (store_obj 7 [1, 2] (new_los 2 \<lparr>files = Map.empty, fds = Map.empty, next_fd = 3\<rparr>)) =
         (Return (Some \<lparr>cpresp_Uid = 7, cpresp_ObjectBytes = bs\<rparr>, None), s'') \<and>
     length bs = unat (gresp_Size g)"
proof -
  let ?s = "store_obj 7 [1, 2] (new_los 2 \<lparr>files = Map.empty, fds = Map.empty, next_fd = 3\<rparr>)"
  let ?req = "\<lparr>get_Uid = 7, get_Testing = False, get_Copy = True, get_Cache = True\<rparr>"
  have inv: "los_inv ?s"
    unfolding store_obj_def Store_state by (rule los_inv_put_shared) simp_all
  have "los_objectSizes ?s 7 = Some 2"
    by (simp add: store_obj_def Store_state put_shared_ok no_errors_def)
  then obtain r where r: "Get_start ?req ?s = (Some r, [], ?s)"
    by (simp add: Get_start_def)
  from local_Get_is_backed[OF inv r, of 0] r show ?thesis by auto
qed

text \<open>The agreement of sizes and files survives every \<open>Store\<close> and every caching \<open>Get\<close> that
  succeeds, every failing one of an object not held before, and every \<open>Copy\<close>.\<close>

theorem sizes_agree_with_files:
  assumes "los_inv s"
  shows "(length (st_ObjectBytes req) < 2 ^ 63 \<and>
      (create_error errs (st_ObjectBytes req) = None \<or> los_objectSizes s (st_Uid req) = None) \<longrightarrow>
      los_inv (snd (snd (Store errs req s)))) \<and>
    ((\<forall>x. copied = (Some x, None) \<longrightarrow> length (cpresp_ObjectBytes x) < 2 ^ 63 \<and>
        (create_error errs (cpresp_ObjectBytes x) = None \<or> los_objectSizes s (get_Uid greq) = None)) \<longrightarrow>
      los_inv (snd (snd (Get_resume errs prefix port dialErr copied greq cb s)))) \<and>
    los_inv (snd (Copy errs creq s))"
proof (intro conjI impI)
  show "los_inv (snd (snd (Store errs req s)))" if "length (st_ObjectBytes req) < 2 ^ 63 \<and>
    (create_error errs (st_ObjectBytes req) = None \<or> los_objectSizes s (st_Uid req) = None)"
    using that assms by (simp add: Store_state los_inv_put_shared)
  show "los_inv (snd (snd (Get_resume errs prefix port dialErr copied greq cb s)))"
    if "\<forall>x. copied = (Some x, None) \<longrightarrow> length (cpresp_ObjectBytes x) < 2 ^ 63 \<and>
         (create_error errs (cpresp_ObjectBytes x) = None \<or> los_objectSizes s (get_Uid greq) = None)"
  proof (cases "\<exists>x. copied = (Some x, None)")
    case True
    then obtain x where "copied = (Some x, None)" by blast
    with that assms los_inv_put_shared[of s "cpresp_ObjectBytes x" errs "get_Uid greq"] show ?thesis
      by (auto simp: Get_resume_def Let_def split: option.split prod.split)
  next
    case False
    with assms show ?thesis
      by (auto simp: Get_resume_def Let_def split: option.split prod.split)
  qed
  show "los_inv (snd (Copy errs creq s))"
    using assms
    by (auto simp: Copy_def readSharedMemory_def sys_open_def sys_mmap_def sys_close_def los_inv_def
        split: option.splits if_splits)
qed

theorem sizes_agree_with_files_witness:
  "los_inv (snd (snd (Store no_errors \<lparr>st_Uid = 7, st_ObjectBytes = [1, 2]\<rparr>
     (new_los 2 \<lparr>files = Map.empty, fds = Map.empty, next_fd = 3\<rparr>))))"
  using sizes_agree_with_files[of "new_los 2 \<lparr>files = Map.empty, fds = Map.empty, next_fd = 3\<rparr>"
      "\<lparr>st_Uid = 7, st_ObjectBytes = [1, 2]\<rparr>" no_errors]
  by simp

text \<open>C28 A \<open>Get\<close> that asked to copy and to cache, once its location arrived and the copy
  succeeded, returns the copied bytes; from then on the object is held here. The GCS is told so,
  but the message carries no size.\<close>

theorem caching_Get:
  assumes "get_Copy req" "get_Cache req" "lf_Port cb = 0" "is_object bs" "create_error errs bs = None"
    and "Get_resume errs prefix port None (Some \<lparr>cpresp_Uid = u, cpresp_ObjectBytes = bs\<rparr>, None) req cb s
         = (r, calls, s')"
  shows "r = (Some \<lparr>gresp_Uid = get_Uid req, gresp_ObjectBytes = bs, gresp_Local = False,
              gresp_Size = of_nat (length bs)\<rparr>, None) \<and>
    calls = [CallCopy (node_address prefix (uint (lf_Location cb)) port)
               \<lparr>cp_Uid = lf_Uid cb, cp_Requester = localNodeID s\<rparr>,
             CallNotifyOwns \<lparr>no_Uid = lf_Uid cb, no_NodeId = localNodeID s, no_ObjectSize = 0\<rparr>] \<and>
    object_in s' (get_Uid req) = Some bs \<and>
    fst (Get_start req s') = Some (Some \<lparr>gresp_Uid = get_Uid req, gresp_ObjectBytes = [],
      gresp_Local = True, gresp_Size = of_nat (length bs)\<rparr>, None)"
proof -
  from assms have put: "put_shared errs (get_Uid req) bs s =
    (None, s\<lparr>host := filled (shm_path (FormatUint (get_Uid req))) bs (host s),
             los_objectSizes := (los_objectSizes s)(get_Uid req \<mapsto> of_nat (length bs))\<rparr>)"
    by (intro put_shared_ok) (simp_all add: create_error_None)
  then show ?thesis
    using assms
    by (auto simp: Get_resume_def Let_def otherLocalAddress_def Get_start_def is_object_def
        object_in_filled)
qed

theorem caching_Get_witness:
  "\<exists>r calls s'. Get_resume no_errors ''node'' 50000 None
     (Some \<lparr>cpresp_Uid = 7, cpresp_ObjectBytes = [1]\<rparr>, None)
     \<lparr>get_Uid = 7, get_Testing = False, get_Copy = True, get_Cache = True\<rparr>
     \<lparr>lf_Uid = 7, lf_Location = 3, lf_Address = [], lf_Port = 0\<rparr>
     (new_los 2 \<lparr>files = Map.empty, fds = Map.empty, next_fd = 3\<rparr>) = (r, calls, s') \<and>
     object_in s' 7 = Some [1]"
proof -
  obtain r calls s' where *: "Get_resume no_errors ''node'' 50000 None
     (Some \<lparr>cpresp_Uid = 7, cpresp_ObjectBytes = [1]\<rparr>, None)
     \<lparr>get_Uid = 7, get_Testing = False, get_Copy = True, get_Cache = True\<rparr>
     \<lparr>lf_Uid = 7, lf_Location = 3, lf_Address = [], lf_Port = 0\<rparr>
     (new_los 2 \<lparr>files = Map.empty, fds = Map.empty, next_fd = 3\<rparr>) = (r, calls, s')"
    by (metis prod_cases3)
  from caching_Get[OF _ _ _ _ _ *] * show ?thesis by (simp add: is_object_def)
qed

section \<open>Concurrent calls\<close>

lemma Get_start_miss:
  assumes "Get_start req s = (None, calls, s')"
  shows "localObjectChannels s' = (localObjectChannels s)(get_Uid req \<mapsto> next_chan s)"
    and "next_chan s' = Suc (next_chan s)"
  using assms by (auto simp: Get_start_def split: option.splits)

lemma Get_start_hit: "Get_start req s = (Some r, calls, s') \<Longrightarrow> s' = s"
  by (auto simp: Get_start_def split: option.splits)

lemma Get_resume_channels:
  assumes "Get_resume errs prefix port dialErr copied req cb s = (r, calls, s')"
  shows "localObjectChannels s' = localObjectChannels s \<and> next_chan s' = next_chan s"
proof -
  have "s' = s \<or> (\<exists>bs. s' = snd (put_shared errs (get_Uid req) bs s))"
    using assms
    by (auto simp: Get_resume_def Let_def split: if_splits option.splits prod.splits) (metis snd_conv)+
  then show ?thesis by (auto simp: br_frame)
qed

lemma Store_channels:
  assumes "Store errs req s = (r, calls, s')"
  shows "localObjectChannels s' = localObjectChannels s \<and> next_chan s' = next_chan s"
  using Store_state[of errs req s] assms by (simp add: br_frame)

lemma Copy_channels:
  assumes "Copy errs req s = (out, s')"
  shows "localObjectChannels s' = localObjectChannels s \<and> next_chan s' = next_chan s"
  using assms by (auto simp: Copy_def split: option.splits prod.splits sum.splits)

text \<open>
  The channel invariant: every channel was made by \<open>Get\<close> for one object, \<open>own\<close> says which,
  and whoever uses the channel is about that object.
\<close>

definition chan_inv :: "(nat \<Rightarrow> u64) \<Rightarrow> los_sys \<Rightarrow> bool" where
  "chan_inv own s \<longleftrightarrow>
     (\<forall>u c. localObjectChannels (srv s) u = Some c \<longrightarrow> own c = u \<and> c < next_chan (srv s)) \<and>
     (\<forall>i req c. gets s i = GWaits req c \<longrightarrow> own c = get_Uid req \<and> c < next_chan (srv s)) \<and>
     (\<forall>j cb c. lfs s j = LSends cb (Some c) \<longrightarrow> own c = lf_Uid cb \<and> c < next_chan (srv s)) \<and>
     (\<forall>i req cb. gets s i = GResumed req cb \<longrightarrow> lf_Uid cb = get_Uid req) \<and>
     (\<forall>i req. gets s i = GCalled req \<longrightarrow> localObjectChannels (srv s) (get_Uid req) \<noteq> None)"

lemma chan_inv_step:
  assumes "los_step prefix port s s'" "chan_inv own s"
  shows "\<exists>own'. chan_inv own' s'"
  using assms
proof (cases rule: los_step.cases)
  case (get_miss i req calls srv')
  then have "chan_inv (own(next_chan (srv s) := get_Uid req)) s'"
    using assms(2) by (auto simp: chan_inv_def Get_start_miss less_Suc_eq) (metis less_irrefl)+
  then show ?thesis by blast
next
  case (get_end i req cb errs dialErr copied r calls srv')
  with assms(2) have "chan_inv own s'"
    using Get_resume_channels[OF get_end(3)] by (auto simp: chan_inv_def)
  then show ?thesis by blast
next
  case (store errs sreq r calls srv')
  with assms(2) have "chan_inv own s'"
    using Store_channels[OF store(2)] by (auto simp: chan_inv_def)
  then show ?thesis by blast
next
  case (copy errs creq out srv')
  with assms(2) have "chan_inv own s'"
    using Copy_channels[OF copy(2)] by (auto simp: chan_inv_def)
  then show ?thesis by blast
next
  case (handover i req c j cb)
  with assms(2) have "lf_Uid cb = get_Uid req" by (metis chan_inv_def)
  with assms(2) handover have "chan_inv own s'" by (auto simp: chan_inv_def)
  then show ?thesis by blast
qed (auto simp: chan_inv_def LocationFound_channel_def dest!: Get_start_hit intro!: exI[of _ own])

interpretation ch: step_invariant "los_step prefix port" "\<lambda>s. \<exists>own. chan_inv own s" for prefix port
  by unfold_locales (use chan_inv_step in blast)

lemma chan_inv_reachable: "los_steps prefix port (los_start (new_los n m)) s \<Longrightarrow> \<exists>own. chan_inv own s"
  by (rule ch.steps_inv) (auto simp: chan_inv_def los_start_def new_los_def)

text \<open>C15 However calls overlap, a \<open>Get\<close> is only ever woken by a location of the object it asked
  for, so the copy it then makes is of that object; and a \<open>Get\<close> that is about to wait always finds
  a channel.\<close>

theorem Get_woken_by_its_object:
  assumes "los_steps prefix port (los_start (new_los n m)) s"
  shows "(\<forall>i req cb. gets s i = GResumed req cb \<longrightarrow> lf_Uid cb = get_Uid req) \<and>
    (\<forall>i req. gets s i = GCalled req \<longrightarrow> (\<exists>c. localObjectChannels (srv s) (get_Uid req) = Some c))"
  using chan_inv_reachable[OF assms] by (auto simp: chan_inv_def)

abbreviation req7 :: GetRequest where
  "req7 \<equiv> \<lparr>get_Uid = 7, get_Testing = False, get_Copy = True, get_Cache = False\<rparr>"

abbreviation cb7 :: LocationFoundCallback where
  "cb7 \<equiv> \<lparr>lf_Uid = 7, lf_Location = 3, lf_Address = [], lf_Port = 0\<rparr>"

abbreviation idle_machine :: machine where
  "idle_machine \<equiv> \<lparr>files = Map.empty, fds = Map.empty, next_fd = 3\<rparr>"

text \<open>Two calls of \<open>Get\<close> for one object: the first waits when the second makes its channel.\<close>

definition los_waiting :: los_sys where
  "los_waiting = (los_start (new_los 2 idle_machine))
     \<lparr>srv := (new_los 2 idle_machine)\<lparr>localObjectChannels := [7 \<mapsto> 0], next_chan := 1\<rparr>,
      gets := (\<lambda>_. GIdle)(0 := GWaits req7 0)\<rparr>"

lemma los_waiting_reachable: "los_steps p q (los_start (new_los 2 idle_machine)) los_waiting"
proof -
  let ?s0 = "los_start (new_los 2 idle_machine)"
  let ?srv1 = "(new_los 2 idle_machine)\<lparr>localObjectChannels := [7 \<mapsto> 0], next_chan := 1\<rparr>"
  let ?s1 = "?s0\<lparr>srv := ?srv1, gets := (gets ?s0)(0 := GCalled req7)\<rparr>"
  have 1: "los_step p q ?s0 ?s1"
    by (rule los_step.get_miss[where req = req7])
      (auto simp: los_start_def Get_start_def new_los_def)
  have "?s1\<lparr>gets := (gets ?s1)(0 := GWaits req7 0)\<rparr> = los_waiting"
    by (simp add: los_waiting_def los_start_def)
  moreover have "los_step p q ?s1 (?s1\<lparr>gets := (gets ?s1)(0 := GWaits req7 0)\<rparr>)"
    by (rule los_step.get_wait) auto
  ultimately have "los_step p q ?s1 los_waiting" by simp
  with 1 show ?thesis by (rule rtranclp.rtrancl_into_rtrancl[OF r_into_rtranclp])
qed

text \<open>The state after \<open>LocationFound\<close> handed its callback over.\<close>

definition los_woken :: los_sys where
  "los_woken = los_waiting\<lparr>gets := (gets los_waiting)(0 := GResumed req7 cb7),
     lfs := (lfs los_waiting)(0 := LDone)\<rparr>"

lemma los_woken_reachable: "los_steps p q (los_start (new_los 2 idle_machine)) los_woken"
proof -
  let ?s1 = "los_waiting\<lparr>lfs := (lfs los_waiting)(0 := LSends cb7 (Some 0))\<rparr>"
  have "los_step p q los_waiting ?s1"
    using los_step.lf_call[of los_waiting 0 p q cb7]
    by (simp add: los_waiting_def los_start_def LocationFound_channel_def)
  moreover have "los_step p q ?s1 los_woken"
    using los_step.handover[of ?s1 0 req7 0 0 cb7 p q]
    by (simp add: los_waiting_def los_woken_def los_start_def)
  ultimately show ?thesis using los_waiting_reachable by (meson rtranclp.rtrancl_into_rtrancl)
qed

theorem Get_woken_by_its_object_witness:
  "gets los_woken 0 = GResumed req7 cb7 \<and> lf_Uid cb7 = get_Uid req7"
  using Get_woken_by_its_object[OF los_woken_reachable] by (simp add: los_woken_def)

text \<open>Nobody can reach channel \<open>c\<close> any more except a \<open>Get\<close> waiting on it.\<close>

definition abandoned :: "nat \<Rightarrow> los_sys \<Rightarrow> bool" where
  "abandoned c s \<longleftrightarrow> c < next_chan (srv s) \<and> (\<forall>u. localObjectChannels (srv s) u \<noteq> Some c) \<and>
     (\<forall>j cb. lfs s j \<noteq> LSends cb (Some c))"

lemma abandoned_step:
  assumes "los_step prefix port s s'" "abandoned c s"
  shows "abandoned c s' \<and> (gets s i = GWaits req c \<longrightarrow> gets s' i = GWaits req c)"
  using assms
proof (cases rule: los_step.cases)
  case (get_miss i req calls srv')
  with assms(2) show ?thesis by (auto simp: abandoned_def Get_start_miss)
next
  case (get_end i req cb errs dialErr copied r calls srv')
  with assms(2) show ?thesis using Get_resume_channels[OF get_end(3)] by (auto simp: abandoned_def)
next
  case (store errs sreq r calls srv')
  with assms(2) show ?thesis using Store_channels[OF store(2)] by (auto simp: abandoned_def)
next
  case (copy errs creq out srv')
  with assms(2) show ?thesis using Copy_channels[OF copy(2)] by (auto simp: abandoned_def)
qed (auto simp: abandoned_def LocationFound_channel_def dest!: Get_start_hit)

interpretation ab: step_invariant "los_step prefix port" "\<lambda>s. abandoned c s \<and> gets s i = GWaits req c"
  for prefix port c i req
  by unfold_locales (use abandoned_step in blast)

text \<open>C25 A second \<open>Get\<close> for an object replaces the channel of the first. If the first already
  waits and nobody is sending to it at that moment, it waits forever: no sequence of further steps
  of any handler, further callbacks for the object included, ever wakes it.\<close>

theorem overtaken_Get_waits_forever:
  assumes "los_steps prefix port (los_start (new_los n m)) s"
    and "gets s i = GWaits req c" and "gets s k = GIdle"
    and "\<forall>j cb. lfs s j \<noteq> LSends cb (Some c)"
    and "get_Uid req2 = get_Uid req" and "Get_start req2 (srv s) = (None, calls, srv')"
    and "los_steps prefix port (s\<lparr>srv := srv', gets := (gets s)(k := GCalled req2)\<rparr>) s'"
  shows "gets s' i = GWaits req c"
proof -
  let ?t = "s\<lparr>srv := srv', gets := (gets s)(k := GCalled req2)\<rparr>"
  obtain own where inv: "chan_inv own s" using chan_inv_reachable[OF assms(1)] by blast
  then have "own c = get_Uid req" "c < next_chan (srv s)"
    using assms(2) by (auto simp: chan_inv_def)
  moreover have "own c = u" if "localObjectChannels (srv s) u = Some c" for u
    using that inv by (auto simp: chan_inv_def)
  ultimately have "abandoned c ?t"
    using assms(4,5) Get_start_miss[OF assms(6)] by (fastforce simp: abandoned_def)
  moreover have "gets ?t i = GWaits req c" using assms(2,3) by auto
  ultimately have "abandoned c s' \<and> gets s' i = GWaits req c"
    using ab.steps_inv[OF assms(7)] by blast
  then show ?thesis ..
qed

definition los_overtaken :: los_sys where
  "los_overtaken = los_waiting\<lparr>srv := (srv los_waiting)\<lparr>localObjectChannels := [7 \<mapsto> 1], next_chan := 2\<rparr>,
     gets := (gets los_waiting)(1 := GCalled req7)\<rparr>"

definition los_answered :: los_sys where
  "los_answered = los_overtaken\<lparr>gets := (gets los_overtaken)(1 := GResumed req7 cb7),
     lfs := (lfs los_overtaken)(0 := LDone)\<rparr>"

lemma los_answered_reached: "los_steps p q los_overtaken los_answered"
proof -
  let ?s1 = "los_overtaken\<lparr>gets := (gets los_overtaken)(1 := GWaits req7 1)\<rparr>"
  let ?s2 = "?s1\<lparr>lfs := (lfs ?s1)(0 := LSends cb7 (Some 1))\<rparr>"
  note defs = los_waiting_def los_start_def los_overtaken_def new_los_def
  have "los_step p q los_overtaken ?s1"
    by (rule los_step.get_wait) (simp_all add: defs)
  moreover have "los_step p q ?s1 ?s2"
    using los_step.lf_call[of ?s1 0 p q cb7] by (simp add: LocationFound_channel_def defs)
  moreover have "los_step p q ?s2 los_answered"
    using los_step.handover[of ?s2 1 req7 1 0 cb7 p q] by (simp add: los_answered_def defs)
  ultimately show ?thesis by (meson converse_rtranclp_into_rtranclp rtranclp.rtrancl_refl)
qed

theorem overtaken_Get_waits_forever_witness:
  "gets los_answered 1 = GResumed req7 cb7 \<and> gets los_answered 0 = GWaits req7 0"
proof -
  have "los_steps ''node'' 1 (los_waiting\<lparr>srv := srv los_overtaken,
      gets := (gets los_waiting)(1 := GCalled req7)\<rparr>) los_answered"
    using los_answered_reached[of "''node''" 1] by (simp add: los_overtaken_def)
  then have "gets los_answered 0 = GWaits req7 0"
    by (rule overtaken_Get_waits_forever[OF los_waiting_reachable, rotated -1])
      (simp_all add: los_overtaken_def los_waiting_def los_start_def Get_start_def new_los_def)
  then show ?thesis by (simp add: los_answered_def)
qed

section \<open>The reported bandwidth\<close>

lemma put_shared_bandwidth [br_frame]: "avgBandwidth (snd (put_shared errs uid bs s)) = avgBandwidth s"
  by (cases rule: put_shared_cases[of errs bs uid s]; simp)

lemma los_step_bandwidth:
  assumes "los_step prefix port s s'"
  shows "avgBandwidth (srv s') = avgBandwidth (srv s)"
  using assms
proof (cases rule: los_step.cases)
  case (get_end i req cb errs dialErr copied r calls srv')
  have "srv' = srv s \<or> (\<exists>bs. srv' = snd (put_shared errs (get_Uid req) bs (srv s)))"
    using get_end(3)
    by (auto simp: Get_resume_def Let_def split: if_splits option.splits prod.splits) (metis snd_conv)+
  with get_end show ?thesis by (auto simp: br_frame)
next
  case (store errs sreq r calls srv')
  then show ?thesis using Store_state[of errs sreq "srv s"] by (simp add: br_frame)
next
  case (copy errs creq out srv')
  then show ?thesis by (auto simp: Copy_def split: option.splits prod.splits sum.splits)
qed (auto simp: Get_start_def split: option.splits)

interpretation bw: step_invariant "los_step prefix port" "\<lambda>s. avgBandwidth (srv s) = b" for prefix port b
  by unfold_locales (simp add: los_step_bandwidth)

lemma reachable_bandwidth:
  "los_steps prefix port (los_start (new_los n m)) s \<Longrightarrow> avgBandwidth (srv s) = DEFAULT_AVG_BANDWIDTH"
  by (erule bw.steps_inv) (simp add: los_start_def new_los_def)

end
