(* ===== verification/BR_Base64.thy ===== *)
theory BR_Base64
  imports BR_Net
begin

text \<open>
  Base64 as both sides of the worker's pipe use it: Go's \<open>base64.StdEncoding\<close> and Python's
  \<open>base64.b64encode\<close> / \<open>base64.b64decode\<close>. Encoders agree; the two decoders differ on what
  they tolerate, and both are written out.
\<close>

section \<open>Encoding\<close>

definition encodeStd :: string where
  "encodeStd = ''ABCDEFGHIJKLMNOPQRSTUVWXYZabcdefghijklmnopqrstuvwxyz0123456789+/''"

definition enc_char :: "nat \<Rightarrow> char" where
  "enc_char n = encodeStd ! (n mod 64)"

definition pack :: "nat \<Rightarrow> nat \<Rightarrow> nat \<Rightarrow> nat" where
  "pack a b c = a * 65536 + b * 256 + c"

fun EncodeToString :: "bytes \<Rightarrow> string" where
  "EncodeToString [] = []"
| "EncodeToString [a] =
     (let v = pack (unat a) 0 0 in [enc_char (v div 262144), enc_char (v div 4096)] @ ''=='')"
| "EncodeToString [a, b] =
     (let v = pack (unat a) (unat b) 0
      in [enc_char (v div 262144), enc_char (v div 4096), enc_char (v div 64)] @ ''='')"
| "EncodeToString (a # b # c # bs) =
     (let v = pack (unat a) (unat b) (unat c)
      in [enc_char (v div 262144), enc_char (v div 4096), enc_char (v div 64), enc_char v] @
         EncodeToString bs)"

section \<open>Decoding\<close>

definition decodeMap :: "char \<Rightarrow> nat option" where
  "decodeMap c = IndexByte encodeStd c"

text \<open>The bytes a group of two, three or four six-bit digits stands for.\<close>

fun group_bytes :: "nat list \<Rightarrow> bytes" where
  "group_bytes [a, b] = [of_nat ((a * 64 + b) div 16)]"
| "group_bytes [a, b, c] =
     [of_nat ((a * 4096 + b * 64 + c) div 1024), of_nat ((a * 4096 + b * 64 + c) div 4)]"
| "group_bytes [a, b, c, d] =
     (let v = a * 262144 + b * 4096 + c * 64 + d
      in [of_nat (v div 65536), of_nat (v div 256), of_nat v])"
| "group_bytes _ = []"

definition newline :: "char \<Rightarrow> bool" where
  "newline c \<longleftrightarrow> c = CHR 0x0A \<or> c = CHR 0x0D"

text \<open>
  Go's decoder: line ends are skipped, padding must complete a group and nothing but line
  ends may follow it. \<open>acc\<close> holds the digits of the current group.
\<close>

definition decode_padding :: "nat list \<Rightarrow> string \<Rightarrow> bytes option" where
  "decode_padding acc rest =
     (if length acc = 2 then
        (case dropWhile newline rest of
           [] \<Rightarrow> None
         | d # ds \<Rightarrow>
             if d \<noteq> CHR ''='' then None
             else if dropWhile newline ds = [] then Some (group_bytes acc) else None)
      else if length acc = 3 then
        (if dropWhile newline rest = [] then Some (group_bytes acc) else None)
      else None)"

fun decode_from :: "nat list \<Rightarrow> string \<Rightarrow> bytes option" where
  "decode_from acc [] = (if acc = [] then Some [] else None)"
| "decode_from acc (c # cs) =
     (case decodeMap c of
        Some v \<Rightarrow>
          if length acc = 3 then map_option (\<lambda>bs. group_bytes (acc @ [v]) @ bs) (decode_from [] cs)
          else decode_from (acc @ [v]) cs
      | None \<Rightarrow>
          if newline c then decode_from acc cs
          else if c \<noteq> CHR ''='' then None
          else decode_padding acc cs)"

definition DecodeString :: "string \<Rightarrow> bytes option" where
  "DecodeString s = decode_from [] s"

text \<open>
  Python's decoder ignores every character outside the alphabet and stops at the padding
  that completes a group.
\<close>

fun b64decode_from :: "nat list \<Rightarrow> nat \<Rightarrow> string \<Rightarrow> bytes option" where
  "b64decode_from acc pads [] = (if acc = [] then Some [] else None)"
| "b64decode_from acc pads (c # cs) =
     (if c = CHR ''='' then
        (if 2 \<le> length acc then
           (if 4 \<le> length acc + Suc pads then Some (group_bytes acc)
            else b64decode_from acc (Suc pads) cs)
         else b64decode_from acc pads cs)
      else case decodeMap c of
             None \<Rightarrow> b64decode_from acc pads cs
           | Some v \<Rightarrow>
               if length acc = 3
               then map_option (\<lambda>bs. group_bytes (acc @ [v]) @ bs) (b64decode_from [] 0 cs)
               else b64decode_from (acc @ [v]) 0 cs)"

definition b64decode :: "string \<Rightarrow> bytes option" where
  "b64decode s = b64decode_from [] 0 s"

section \<open>Round trips\<close>

lemma length_encodeStd: "length encodeStd = 64"
  by (simp add: encodeStd_def)

lemma distinct_encodeStd: "distinct encodeStd"
  by (simp add: encodeStd_def)

lemma IndexByte_nth: "distinct s \<Longrightarrow> n < length s \<Longrightarrow> IndexByte s (s ! n) = Some n"
  by (induction s arbitrary: n) (auto simp: nth_Cons split: nat.split)

lemma decodeMap_enc_char [simp]: "decodeMap (enc_char n) = Some (n mod 64)"
  unfolding decodeMap_def enc_char_def
  by (rule IndexByte_nth) (simp_all add: length_encodeStd distinct_encodeStd)

lemma enc_char_alphabet: "enc_char n \<in> set encodeStd"
  by (simp add: enc_char_def length_encodeStd)

lemma not_in_alphabet: "CHR ''='' \<notin> set encodeStd" "CHR 0x0A \<notin> set encodeStd"
  by (simp_all add: encodeStd_def)

lemma enc_char_plain [simp]:
  "enc_char n \<noteq> CHR ''=''" "enc_char n \<noteq> CHR 0x0A" "CHR 0x0A \<noteq> enc_char n"
  using enc_char_alphabet[of n] not_in_alphabet by metis+

lemma decodeMap_pad [simp]: "decodeMap (CHR ''='') = None"
  by (simp add: decodeMap_def not_in_alphabet)

lemma newline_pad [simp]: "\<not> newline (CHR ''='')"
  by (simp add: newline_def)

lemma byte_unat: "unat (b :: byte) < 256"
  using unsigned_less[of b, where 'a = nat] by simp

lemma byte_256 [simp]: "a * 256 = 0" "a * 65536 = 0" for a :: byte
proof -
  have "(256 :: byte) = 0" "(65536 :: byte) = 0" by simp_all
  then show "a * 256 = 0" "a * 65536 = 0" by (metis mult_zero_right)+
qed

lemma digits64:
  fixes v :: nat
  assumes "v < 16777216"
  shows "v div 262144 mod 64 * 262144 + v div 4096 mod 64 * 4096 + v div 64 mod 64 * 64 + v mod 64 = v"
proof -
  have "v div 4096 = v div 64 div 64" "v div 262144 = v div 64 div 64 div 64"
    by (simp_all flip: div_mult2_eq)
  moreover have "v div 64 div 64 div 64 < 64" using assms by (simp flip: div_mult2_eq)
  moreover from this have "v div 64 div 64 div 64 mod 64 = v div 64 div 64 div 64" by (rule mod_less)
  ultimately show ?thesis
    using div_mult_mod_eq[of v 64] div_mult_mod_eq[of "v div 64" 64] div_mult_mod_eq[of "v div 64 div 64" 64]
    by (simp only:)
qed

lemma group3:
  "group_bytes [pack (unat a) (unat b) (unat c) div 262144 mod 64, pack (unat a) (unat b) (unat c) div 4096 mod 64,
     pack (unat a) (unat b) (unat c) div 64 mod 64, pack (unat a) (unat b) (unat c) mod 64] = [a, b, c]"
proof -
  let ?v = "pack (unat a) (unat b) (unat c)"
  have "?v < 16777216" using byte_unat[of a] byte_unat[of b] byte_unat[of c] by (simp add: pack_def)
  then have "?v div 262144 mod 64 * 262144 + ?v div 4096 mod 64 * 4096 + ?v div 64 mod 64 * 64 + ?v mod 64 = ?v"
    by (rule digits64)
  moreover have "?v div 65536 = unat a" using byte_unat[of b] byte_unat[of c] by (simp add: pack_def)
  moreover have "(of_nat (?v div 256) :: byte) = b"
  proof -
    have "?v div 256 = unat a * 256 + unat b" using byte_unat[of c] by (simp add: pack_def)
    then show ?thesis by simp
  qed
  moreover have "(of_nat ?v :: byte) = c" by (simp add: pack_def)
  ultimately show ?thesis by (simp only: group_bytes.simps Let_def) simp
qed

lemma group2:
  "group_bytes [pack (unat a) (unat b) 0 div 262144 mod 64, pack (unat a) (unat b) 0 div 4096 mod 64,
     pack (unat a) (unat b) 0 div 64 mod 64] = [a, b]"
proof -
  let ?v = "pack (unat a) (unat b) 0"
  let ?w = "?v div 262144 mod 64 * 4096 + ?v div 4096 mod 64 * 64 + ?v div 64 mod 64"
  have "?v < 16777216" using byte_unat[of a] byte_unat[of b] by (simp add: pack_def)
  from digits64[OF this] have "?w * 64 + ?v mod 64 = ?v div 64 * 64 + ?v mod 64"
    unfolding div_mult_mod_eq by (simp only: add_mult_distrib mult.assoc)
  then have w: "?w = ?v div 64" by (metis add_right_cancel mult_cancel2 zero_neq_numeral)
  have "?v div 64 = unat a * 1024 + unat b * 4" by (simp add: pack_def)
  then have "?v div 64 div 1024 = unat a" "?v div 64 div 4 = unat a * 256 + unat b"
    using byte_unat[of b] by simp_all
  then show ?thesis by (simp only: group_bytes.simps w) simp
qed

lemma group1:
  "group_bytes [pack (unat a) 0 0 div 262144 mod 64, pack (unat a) 0 0 div 4096 mod 64] = [a]"
proof -
  have "pack (unat a) 0 0 div 262144 = unat a div 4" "pack (unat a) 0 0 div 4096 = unat a * 16"
    by (simp_all add: pack_def)
  moreover have "unat a div 4 mod 64 = unat a div 4" using byte_unat[of a] by simp
  moreover have "unat a * 16 mod 64 = (unat a mod 4) * 16" using mult_mod_right[of 16 "unat a" 4] by (simp add: mult.commute)
  moreover have "(unat a div 4 * 64 + unat a mod 4 * 16) div 16 = unat a"
  proof -
    have "unat a div 4 * 64 + unat a mod 4 * 16 = unat a * 16"
      using div_mult_mod_eq[of "unat a" 4] by linarith
    then show ?thesis by simp
  qed
  ultimately show ?thesis by simp
qed

declare group_bytes.simps [simp del]

lemma decode_encode: "decode_from [] (EncodeToString bs) = Some bs"
proof (induction bs rule: EncodeToString.induct)
  case (2 a)
  then show ?case using group1[of a] by (simp add: Let_def decode_padding_def)
next
  case (3 a b)
  then show ?case using group2[of a b] by (simp add: Let_def decode_padding_def)
next
  case (4 a b c bs)
  then show ?case using group3[of a b c] by (simp add: Let_def)
qed simp

lemma b64decode_encode: "b64decode_from [] 0 (EncodeToString bs) = Some bs"
proof (induction bs rule: EncodeToString.induct)
  case (2 a)
  then show ?case using group1[of a] by (simp add: Let_def)
next
  case (3 a b)
  then show ?case using group2[of a b] by (simp add: Let_def)
next
  case (4 a b c bs)
  then show ?case using group3[of a b c] by (simp add: Let_def)
qed simp

lemma DecodeString_EncodeToString [simp]: "DecodeString (EncodeToString bs) = Some bs"
  by (simp add: DecodeString_def decode_encode)

lemma b64decode_EncodeToString [simp]: "b64decode (EncodeToString bs) = Some bs"
  by (simp add: b64decode_def b64decode_encode)

lemma EncodeToString_no_newline: "CHR 0x0A \<notin> set (EncodeToString bs)"
  by (induction bs rule: EncodeToString.induct) (simp_all add: Let_def)

text \<open>A text with a character that is neither in the alphabet, nor a line end, nor padding is refused.\<close>

lemma decode_from_foreign:
  "c \<in> set s \<Longrightarrow> decodeMap c = None \<Longrightarrow> \<not> newline c \<Longrightarrow> c \<noteq> CHR ''='' \<Longrightarrow> decode_from acc s = None"
proof (induction s arbitrary: acc)
  case (Cons x xs)
  have rest: "dropWhile newline xs \<noteq> []" if "c \<in> set xs"
    using that Cons.prems(3) by (simp add: dropWhile_eq_Nil_conv) blast
  have tl: "dropWhile newline ds \<noteq> []" if "dropWhile newline xs = CHR ''='' # ds" "c \<in> set xs" for ds
  proof -
    have "set xs = set (takeWhile newline xs) \<union> set (dropWhile newline xs)"
      by (metis set_append takeWhile_dropWhile_id)
    moreover have "c \<notin> set (takeWhile newline xs)" using Cons.prems(3) set_takeWhileD by fast
    ultimately have "c \<in> set ds" using that Cons.prems(4) by auto
    with Cons.prems(3) show ?thesis by (simp add: dropWhile_eq_Nil_conv) blast
  qed
  have pad: "decode_padding acc xs = None" if "c \<in> set xs"
    using rest[OF that] tl[OF _ that] by (auto simp: decode_padding_def split: list.split)
  show ?case
  proof (cases "decodeMap x")
    case None
    with Cons pad show ?thesis by auto
  next
    case (Some v)
    with Cons.prems have "c \<in> set xs" by auto
    with Some Cons show ?thesis by simp
  qed
qed simp

section \<open>Both decoders read the encoder\<close>

interpretation go64: line_codec EncodeToString DecodeString
  by unfold_locales (simp_all add: EncodeToString_no_newline)

interpretation py64: line_codec EncodeToString b64decode
  by unfold_locales (simp_all add: EncodeToString_no_newline)

end
