(* ===== verification/Worker_Node.thy ===== *)
theory Worker_Node
  imports BR_Messages BR_Base64 "HOL-Library.Multiset"
begin

text \<open>
  The worker (\<open>src/go/cmd/worker/main.go\<close>) and the Python side of its pipe
  (\<open>src/go/cmd/worker/execute.py\<close>): \<open>Run\<close> fetches a function, runs it in a Python process
  and stores its result, at most ten tasks at a time; counters and a moving average of the
  running time are reported to the local scheduler.
\<close>

section \<open>Running a function in Python\<close>

definition payload :: "bytes \<Rightarrow> bytes \<Rightarrow> bytes \<Rightarrow> string" where
  "payload f args kwargs =
     EncodeToString f @ [CHR 0x0A] @ EncodeToString args @ [CHR 0x0A] @ EncodeToString kwargs"

text \<open>
  \<open>python\<close> is the process: what it prints for what it reads, or the error of running it. The
  message of the last fatal error leaves out the offset of the bad byte.
\<close>

definition executeFunction ::
  "(string \<Rightarrow> string rpc) \<Rightarrow> bytes \<Rightarrow> bytes \<Rightarrow> bytes \<Rightarrow> bytes ret outcome" where
  "executeFunction python f args kwargs =
     (case python (payload f args kwargs) of
        Inl e \<Rightarrow> Fatal (''Error executing function: '' @ err_text e)
      | Inr output \<Rightarrow>
          (case DecodeString output of
             None \<Rightarrow> Fatal ''Error decoding Base64''
           | Some data \<Rightarrow> Return (Some data, None)))"

text \<open>
  \<open>execute.py\<close>: \<open>call\<close> stands for unpickling the three parts, applying the function and
  pickling its result (\<open>split_lines\<close> is Python's \<open>split\<close> at line ends); it yields what the
  function printed and either the exception's text or the pickled result. This is the part of the
  script inside its \<open>try\<close>, for a function that is a function of its inputs. An interpreter that fails
  earlier, in its imports or \<open>init\<close>, does not get here: to \<open>executeFunction\<close> it is a process that failed,
  \<open>e_python e = (\<lambda>_. Inl err)\<close>. A function that calls \<open>sys.exit\<close>, whose \<open>SystemExit\<close> the \<open>except\<close> clause
  does not catch, is outside \<open>execute_py\<close>.
\<close>

definition exception_line :: "string \<Rightarrow> string" where
  "exception_line txt = ''exception was: '' @ txt @ [CHR 0x0A]"

definition execute_py ::
  "(bytes \<Rightarrow> bytes \<Rightarrow> bytes \<Rightarrow> string \<times> (string + bytes)) \<Rightarrow> string \<Rightarrow> string rpc" where
  "execute_py call input_data =
     Inr (let parts = split_lines input_data in
          if length parts < 3 then exception_line ''list index out of range''
          else case (b64decode (parts ! 0), b64decode (parts ! 1), b64decode (parts ! 2)) of
                 (Some f, Some args, Some kwargs) \<Rightarrow>
                   (case call f args kwargs of
                      (printed, Inl txt) \<Rightarrow> printed @ exception_line txt
                    | (printed, Inr result) \<Rightarrow> printed @ EncodeToString result)
               | _ \<Rightarrow> exception_line ''Incorrect padding'')"

section \<open>Running times\<close>

text \<open>
  \<open>Duration.Seconds\<close> of a number of nanoseconds, and the exponential moving average. The
  constants \<open>EMA_PARAM\<close> and \<open>1 - EMA_PARAM\<close> are exact until they meet the \<open>float32\<close> variable.
\<close>

definition Seconds :: "int \<Rightarrow> f64" where
  "Seconds d =
     (let sec = (if d < 0 then - ((- d) div 1000000000) else d div 1000000000);
          nsec = d - sec * 1000000000
      in fl_add binary64 (fl_of_int binary64 sec)
           (fl_div binary64 (fl_of_int binary64 nsec) (fl_const binary64 1000000000)))"

definition EMA_PARAM :: rat where
  "EMA_PARAM = 9 / 10"

definition update_average :: "f32 \<Rightarrow> int \<Rightarrow> f32" where
  "update_average avg elapsed =
     (let runningTime = fl_conv binary32 (Seconds elapsed)
      in f32_add (f32_mul (f32_const EMA_PARAM) avg) (f32_mul (f32_const (1 - EMA_PARAM)) runningTime))"

section \<open>The server\<close>

definition MAX_CONCURRENT_TASKS :: nat where
  "MAX_CONCURRENT_TASKS = 10"

datatype worker_call = CallFetchFunc FetchRequest | CallStore StoreRequest

text \<open>
  Where a call of \<open>Run\<close> stands: counted as queued and waiting for the semaphore; holding it;
  counted as running; with the function fetched; with the output; past the \<open>alive\<close> test; in the
  deferred function; between its two halves; finished with an outcome.
\<close>

datatype run_pc =
    RQueued RunRequest
  | RAcquired RunRequest
  | RStarted RunRequest
  | RFetched RunRequest bytes
  | RExecuted RunRequest bytes
  | RStoring RunRequest bytes
  | RDeferred "StatusResponse ret outcome"
  | RReleasing "StatusResponse ret outcome"
  | RDone "StatusResponse ret outcome"

text \<open>
  \<open>semaphore\<close> counts the elements in the channel; \<open>fatal\<close> is set when the process ended in
  \<open>log.Fatalf\<close>; \<open>w_calls\<close> records the calls made to other services.
\<close>

record workerServer =
  w_alive :: bool
  semaphore :: nat
  numRunningTasks :: u32
  numQueuedTasks :: u32
  averageRunningTime :: f32
  fatal :: "string option"
  w_calls :: "worker_call list"
  tasks :: "run_pc multiset"

definition new_worker :: workerServer where
  "new_worker = \<lparr>w_alive = True, semaphore = 0, numRunningTasks = 0, numQueuedTasks = 0,
     averageRunningTime = f32_const (1 / 10), fatal = None, w_calls = [], tasks = {#}\<rparr>"

text \<open>What the surroundings answer to a task: the two services, the Python process, the clock.\<close>

record run_env =
  e_fetch :: "FetchResponse rpc"
  e_python :: "string \<Rightarrow> string rpc"
  e_store :: "StatusResponse rpc"
  e_elapsed :: int

definition Run_enter :: "RunRequest \<Rightarrow> workerServer \<Rightarrow> run_pc \<times> workerServer" where
  "Run_enter req w = (RQueued req, w\<lparr>numQueuedTasks := numQueuedTasks w + 1\<rparr>)"

text \<open>One step of a call of \<open>Run\<close>; \<open>None\<close> when it is blocked or over.\<close>

fun Run_next :: "run_env \<Rightarrow> run_pc \<Rightarrow> workerServer \<Rightarrow> (run_pc \<times> workerServer) option" where
  "Run_next e (RQueued req) w =
     (if semaphore w < MAX_CONCURRENT_TASKS
      then Some (RAcquired req, w\<lparr>semaphore := Suc (semaphore w)\<rparr>) else None)"
| "Run_next e (RAcquired req) w =
     Some (RStarted req, w\<lparr>numQueuedTasks := numQueuedTasks w - 1,
                           numRunningTasks := numRunningTasks w + 1\<rparr>)"
| "Run_next e (RStarted req) w =
     Some (case e_fetch e of
             Inl err \<Rightarrow> RDeferred (Return (None, Some err))
           | Inr funcResponse \<Rightarrow> RFetched req (feresp_SerializedFunc funcResponse),
           w\<lparr>w_calls := w_calls w @ [CallFetchFunc \<lparr>fe_Name = run_Name req, fe_CallbackNodeId = 0\<rparr>]\<rparr>)"
| "Run_next e (RFetched req f) w =
     Some (case executeFunction (e_python e) f (run_Args req) (run_Kwargs req) of
             Fatal msg \<Rightarrow> (RFetched req f, w\<lparr>fatal := Some msg\<rparr>)
           | Goexit \<Rightarrow> (RDeferred Goexit, w)
           | Return (_, Some err) \<Rightarrow> (RDeferred (Return (None, Some err)), w)
           | Return (output, None) \<Rightarrow>
               (RExecuted req (case output of None \<Rightarrow> [] | Some bs \<Rightarrow> bs), w))"
| "Run_next e (RExecuted req output) w =
     Some (if w_alive w then RStoring req output else RDeferred Goexit, w)"
| "Run_next e (RStoring req output) w =
     (let w1 = w\<lparr>w_calls := w_calls w @ [CallStore \<lparr>st_Uid = run_Uid req, st_ObjectBytes = output\<rparr>]\<rparr>
      in Some (case e_store e of
                 Inl err \<Rightarrow> (RDeferred (Return (None, Some err)), w1)
               | Inr _ \<Rightarrow>
                   (RDeferred (Return (Some (status True), None)),
                    w1\<lparr>averageRunningTime := update_average (averageRunningTime w1) (e_elapsed e)\<rparr>)))"
| "Run_next e (RDeferred out) w =
     Some (RReleasing out, w\<lparr>numRunningTasks := numRunningTasks w - 1\<rparr>)"
| "Run_next e (RReleasing out) w = Some (RDone out, w\<lparr>semaphore := semaphore w - 1\<rparr>)"
| "Run_next e (RDone out) w = None"

text \<open>A call of \<open>Run\<close> that nothing else interrupts, followed until it ends or blocks.\<close>

fun Run_follow :: "nat \<Rightarrow> run_env \<Rightarrow> run_pc \<times> workerServer \<Rightarrow> run_pc \<times> workerServer" where
  "Run_follow 0 e pw = pw"
| "Run_follow (Suc n) e (p, w) =
     (if fatal w \<noteq> None then (p, w)
      else case Run_next e p w of None \<Rightarrow> (p, w) | Some pw \<Rightarrow> Run_follow n e pw)"

definition Run :: "run_env \<Rightarrow> RunRequest \<Rightarrow> workerServer \<Rightarrow> run_pc \<times> workerServer" where
  "Run e req w = Run_follow 8 e (Run_enter req w)"

definition w_KillServer :: "workerServer \<Rightarrow> StatusResponse ret \<times> workerServer" where
  "w_KillServer w = ((Some (status True), None), w\<lparr>w_alive := False\<rparr>)"

definition w_ReviveServer :: "workerServer \<Rightarrow> StatusResponse ret \<times> workerServer" where
  "w_ReviveServer w = ((Some (status True), None), w\<lparr>w_alive := True\<rparr>)"

definition WorkerStatus :: "workerServer \<Rightarrow> WorkerStatusResponse ret" where
  "WorkerStatus w =
     (Some \<lparr>ws_NumRunningTasks = numRunningTasks w, ws_NumQueuedTasks = numQueuedTasks w,
            ws_AverageRunningTime = averageRunningTime w\<rparr>, None)"

text \<open>All tasks together. Nothing happens any more once the process has ended.\<close>

inductive worker_step :: "workerServer \<Rightarrow> workerServer \<Rightarrow> bool" where
  enter: "fatal w = None \<Longrightarrow> Run_enter req w = (p, w') \<Longrightarrow>
    worker_step w (w'\<lparr>tasks := add_mset p (tasks w)\<rparr>)"
| task: "fatal w = None \<Longrightarrow> tasks w = add_mset p M \<Longrightarrow> Run_next e p w = Some (p', w') \<Longrightarrow>
    worker_step w (w'\<lparr>tasks := add_mset p' M\<rparr>)"
| kill: "fatal w = None \<Longrightarrow> worker_step w (snd (w_KillServer w))"
| revive: "fatal w = None \<Longrightarrow> worker_step w (snd (w_ReviveServer w))"

abbreviation worker_reachable :: "workerServer \<Rightarrow> bool" where
  "worker_reachable \<equiv> worker_step\<^sup>*\<^sup>* new_worker"

end
