(* ===== verification/Worker_Node_Props.thy ===== *)
theory Worker_Node_Props
  imports Worker_Node
begin

text \<open>
  What the worker promises: the semaphore and the two counters always agree with the tasks
  under way and never exceed the limit, every task releases what it took whichever way it ends,
  the pipe to Python delivers exactly the three serialised values, and the moving average stays
  a number.
\<close>

section \<open>Counting tasks\<close>

fun waiting :: "run_pc \<Rightarrow> bool" where
  "waiting (RQueued _) = True"
| "waiting (RAcquired _) = True"
| "waiting _ = False"

fun holding :: "run_pc \<Rightarrow> bool" where
  "holding (RQueued _) = False"
| "holding (RDone _) = False"
| "holding _ = True"

fun running :: "run_pc \<Rightarrow> bool" where
  "running (RQueued _) = False"
| "running (RAcquired _) = False"
| "running (RReleasing _) = False"
| "running (RDone _) = False"
| "running _ = True"

fun finished :: "run_pc \<Rightarrow> bool" where
  "finished (RDone _) = True"
| "finished _ = False"

abbreviation count_tasks :: "(run_pc \<Rightarrow> bool) \<Rightarrow> workerServer \<Rightarrow> nat" where
  "count_tasks P w \<equiv> size (filter_mset P (tasks w))"

definition worker_inv :: "workerServer \<Rightarrow> bool" where
  "worker_inv w \<longleftrightarrow>
     semaphore w = count_tasks holding w \<and>
     semaphore w \<le> MAX_CONCURRENT_TASKS \<and>
     numRunningTasks w = of_nat (count_tasks running w) \<and>
     numQueuedTasks w = of_nat (count_tasks waiting w)"

lemma worker_inv_new: "worker_inv new_worker"
  by (simp add: worker_inv_def new_worker_def)

lemma worker_inv_next:
  assumes "worker_inv w" "tasks w = add_mset p M" "Run_next e p w = Some (p', w')"
  shows "worker_inv (w'\<lparr>tasks := add_mset p' M\<rparr>)"
proof (cases p)
  case (RFetched req f)
  with assms show ?thesis
    by (auto simp: worker_inv_def executeFunction_def split: sum.splits option.splits)
qed (use assms in \<open>auto simp: worker_inv_def Let_def MAX_CONCURRENT_TASKS_def split: if_splits sum.splits\<close>)

lemma worker_inv_step: "worker_step w w' \<Longrightarrow> worker_inv w \<Longrightarrow> worker_inv w'"
proof (induction rule: worker_step.induct)
  case (task w p M e p' w')
  then show ?case by (simp add: worker_inv_next)
qed (auto simp: worker_inv_def Run_enter_def w_KillServer_def w_ReviveServer_def)

interpretation ws: step_invariant worker_step worker_inv
  by unfold_locales (rule worker_inv_step)

lemma worker_inv_reachable: "worker_reachable w \<Longrightarrow> worker_inv w"
  using ws.steps_inv worker_inv_new by blast

lemma all_finished:
  assumes "worker_inv w" "\<forall>p \<in># tasks w. finished p"
  shows "semaphore w = 0" "numRunningTasks w = 0" "numQueuedTasks w = 0"
proof -
  have "\<not> holding p \<and> \<not> running p \<and> \<not> waiting p" if "finished p" for p
    using that by (cases p) auto
  then have "count_tasks holding w = 0" "count_tasks running w = 0" "count_tasks waiting w = 0"
    using assms(2) by auto
  with assms(1) have "semaphore w = 0 \<and> numRunningTasks w = of_nat 0 \<and> numQueuedTasks w = of_nat 0"
    by (simp only: worker_inv_def)
  then show "semaphore w = 0" "numRunningTasks w = 0" "numQueuedTasks w = 0" by simp_all
qed

lemma running_holding: "count_tasks running w \<le> count_tasks holding w"
proof -
  have "running p \<Longrightarrow> holding p" for p by (cases p) auto
  then have "size (filter_mset running M) \<le> size (filter_mset holding M)" for M
    by (induction M) (auto intro: le_SucI)
  then show ?thesis .
qed

text \<open>C12 However tasks interleave and however they end, the worker's numbers are exact: the
  semaphore counts the tasks that hold a slot, \<open>NumRunningTasks\<close> and \<open>NumQueuedTasks\<close> of
  \<open>WorkerStatus\<close> count the tasks between the two counter updates, at most ten tasks run, and once
  all tasks are over the semaphore is empty and both counters are zero.\<close>

theorem worker_counts_exactly:
  assumes "worker_reachable w" and "WorkerStatus w = (Some st, err)"
  shows "semaphore w = count_tasks holding w \<and> semaphore w \<le> 10 \<and>
    unat (ws_NumRunningTasks st) = count_tasks running w \<and> unat (ws_NumRunningTasks st) \<le> 10 \<and>
    ws_NumQueuedTasks st = of_nat (count_tasks waiting w) \<and>
    ((\<forall>p \<in># tasks w. finished p) \<longrightarrow>
       semaphore w = 0 \<and> ws_NumRunningTasks st = 0 \<and> ws_NumQueuedTasks st = 0)"
proof -
  have inv: "semaphore w = count_tasks holding w" "semaphore w \<le> 10"
    "numRunningTasks w = of_nat (count_tasks running w)" "numQueuedTasks w = of_nat (count_tasks waiting w)"
    using worker_inv_reachable[OF assms(1)] by (simp_all add: worker_inv_def MAX_CONCURRENT_TASKS_def)
  have st: "ws_NumRunningTasks st = numRunningTasks w" "ws_NumQueuedTasks st = numQueuedTasks w"
    using assms(2) by (auto simp: WorkerStatus_def)
  have le: "count_tasks running w \<le> 10" using running_holding[of w] inv(1,2) by simp
  then have unat: "unat (numRunningTasks w) = count_tasks running w"
    using inv(3) by (simp add: unat_of_nat take_bit_nat_eq_self)
  show ?thesis
    using inv st le unat all_finished[OF worker_inv_reachable[OF assms(1)]] by simp
qed

text \<open>A worker with one task queued and one running.\<close>

definition busy_worker :: workerServer where
  "busy_worker = new_worker\<lparr>semaphore := 1, numRunningTasks := 1, numQueuedTasks := 1,
     tasks := {#RQueued \<lparr>run_Uid = 2, run_Name = 1, run_Args = [], run_Kwargs = []\<rparr>,
               RStarted \<lparr>run_Uid = 1, run_Name = 1, run_Args = [], run_Kwargs = []\<rparr>#}\<rparr>"

lemma busy_worker_reachable: "worker_reachable busy_worker"
proof -
  let ?r1 = "\<lparr>run_Uid = 1, run_Name = 1, run_Args = [], run_Kwargs = []\<rparr>"
  let ?r2 = "\<lparr>run_Uid = 2, run_Name = 1, run_Args = [], run_Kwargs = []\<rparr>"
  let ?w1 = "new_worker\<lparr>numQueuedTasks := 1, tasks := {#RQueued ?r1#}\<rparr>"
  let ?w2 = "new_worker\<lparr>numQueuedTasks := 1, semaphore := 1, tasks := {#RAcquired ?r1#}\<rparr>"
  let ?w3 = "new_worker\<lparr>numRunningTasks := 1, semaphore := 1, tasks := {#RStarted ?r1#}\<rparr>"
  have "worker_step new_worker ?w1"
    using worker_step.enter[of new_worker ?r1] by (simp add: new_worker_def Run_enter_def)
  moreover have "worker_step ?w1 ?w2"
    using worker_step.task[of ?w1 "RQueued ?r1" "{#}"]
    by (simp add: new_worker_def MAX_CONCURRENT_TASKS_def)
  moreover have "worker_step ?w2 ?w3"
    using worker_step.task[of ?w2 "RAcquired ?r1" "{#}"] by (simp add: new_worker_def)
  moreover have "worker_step ?w3 busy_worker"
    using worker_step.enter[of ?w3 ?r2] by (simp add: new_worker_def Run_enter_def busy_worker_def)
  ultimately show ?thesis by (meson converse_rtranclp_into_rtranclp rtranclp.rtrancl_refl)
qed

theorem worker_counts_exactly_witness:
  "fst (WorkerStatus busy_worker) = Some \<lparr>ws_NumRunningTasks = 1, ws_NumQueuedTasks = 1,
     ws_AverageRunningTime = f32_const (1 / 10)\<rparr> \<and>
   count_tasks running busy_worker = 1 \<and> semaphore busy_worker \<le> 10"
proof -
  have st: "WorkerStatus busy_worker = (Some \<lparr>ws_NumRunningTasks = 1, ws_NumQueuedTasks = 1,
     ws_AverageRunningTime = f32_const (1 / 10)\<rparr>, None)"
    by (simp add: WorkerStatus_def busy_worker_def new_worker_def)
  from worker_counts_exactly[OF busy_worker_reachable st] st show ?thesis by simp
qed

section \<open>Tasks come to an end\<close>

text \<open>Steps a task still has before it.\<close>

fun remaining :: "run_pc \<Rightarrow> nat" where
  "remaining (RQueued _) = 8"
| "remaining (RAcquired _) = 7"
| "remaining (RStarted _) = 6"
| "remaining (RFetched _ _) = 5"
| "remaining (RExecuted _ _) = 4"
| "remaining (RStoring _ _) = 3"
| "remaining (RDeferred _) = 2"
| "remaining (RReleasing _) = 1"
| "remaining (RDone _) = 0"

text \<open>Surroundings in which Python always prints something that decodes.\<close>

definition python_ok :: "run_env \<Rightarrow> bool" where
  "python_ok e \<longleftrightarrow> (\<forall>stdin. \<exists>out data. e_python e stdin = Inr out \<and> DecodeString out = Some data)"

lemma Run_next_decreases:
  assumes "python_ok e" "fatal w = None" "Run_next e p w = Some (p', w')"
  shows "remaining p' < remaining p \<and> fatal w' = None"
proof (cases p)
  case (RFetched req f)
  obtain out data where "e_python e (payload f (run_Args req) (run_Kwargs req)) = Inr out"
    "DecodeString out = Some data" using assms(1) by (meson python_ok_def)
  with RFetched assms show ?thesis by (auto simp: executeFunction_def)
qed (use assms in \<open>auto simp: Let_def split: if_splits sum.splits\<close>)

lemma Run_next_enabled:
  assumes "worker_inv w" "p \<in># tasks w" "\<not> finished p"
  shows "\<exists>p \<in># tasks w. \<exists>p' w'. Run_next e p w = Some (p', w')"
proof (cases "\<exists>p \<in># tasks w. holding p")
  case True
  then obtain q where "q \<in># tasks w" "holding q" by blast
  moreover then have "\<exists>p' w'. Run_next e q w = Some (p', w')"
    by (cases q) (auto simp: Let_def split: prod.split)
  ultimately show ?thesis by blast
next
  case False
  then have "semaphore w = 0" using assms(1) by (simp add: worker_inv_def)
  moreover from False assms obtain req where "p = RQueued req"
    by (cases p) auto
  ultimately have "Run_next e p w = Some (RAcquired req, w\<lparr>semaphore := 1\<rparr>)"
    by (simp add: MAX_CONCURRENT_TASKS_def)
  with assms(2) show ?thesis by blast
qed

text \<open>
  The steps of tasks whose Python answers, among the steps of the worker: they keep the invariant,
  and the number of steps left goes down.
\<close>

definition task_step :: "run_env \<Rightarrow> workerServer \<Rightarrow> workerServer \<Rightarrow> bool" where
  "task_step e w w' \<longleftrightarrow> python_ok e \<and> fatal w = None \<and>
     (\<exists>p M p' w1. tasks w = add_mset p M \<and> Run_next e p w = Some (p', w1) \<and>
        w' = w1\<lparr>tasks := add_mset p' M\<rparr>)"

definition work_left :: "workerServer \<Rightarrow> nat" where
  "work_left w = (\<Sum>p \<in># tasks w. remaining p)"

lemma task_step_worker: "task_step e w w' \<Longrightarrow> worker_step w w'"
  by (auto simp: task_step_def intro: worker_step.task)

lemma task_step_keeps:
  assumes "task_step e w w'"
  shows "fatal w' = None" "size (tasks w') = size (tasks w)" "work_left w' < work_left w"
proof -
  obtain p M p' w1 where t: "python_ok e" "fatal w = None" "tasks w = add_mset p M"
    "Run_next e p w = Some (p', w1)" "w' = w1\<lparr>tasks := add_mset p' M\<rparr>"
    using assms by (auto simp: task_step_def)
  from Run_next_decreases[OF t(1,2,4)] t(3,5)
  show "fatal w' = None" "size (tasks w') = size (tasks w)" "work_left w' < work_left w"
    by (simp_all add: work_left_def)
qed

text \<open>For a number \<open>n\<close> of tasks and surroundings \<open>e\<close> in which Python answers.\<close>

interpretation wd: draining "task_step e"
  "\<lambda>w. worker_inv w \<and> fatal w = None \<and> size (tasks w) = n \<and> python_ok e"
  work_left "\<lambda>w. \<forall>p \<in># tasks w. finished p"
  for e n
proof unfold_locales
  show "worker_inv w' \<and> fatal w' = None \<and> size (tasks w') = n \<and> python_ok e"
    if "task_step e w w'" "worker_inv w \<and> fatal w = None \<and> size (tasks w) = n \<and> python_ok e" for w w'
    using that task_step_keeps[OF that(1)] worker_inv_step[OF task_step_worker[OF that(1)]] by simp
  show "\<exists>w'. task_step e w w' \<and> work_left w' < work_left w"
    if w: "worker_inv w \<and> fatal w = None \<and> size (tasks w) = n \<and> python_ok e"
      and busy: "\<not> (\<forall>p \<in># tasks w. finished p)" for w
  proof -
    obtain p p' w1 where p: "p \<in># tasks w" "Run_next e p w = Some (p', w1)"
      using Run_next_enabled w busy by blast
    then obtain M where "tasks w = add_mset p M" by (meson mset_add)
    with p w have "task_step e w (w1\<lparr>tasks := add_mset p' M\<rparr>)" unfolding task_step_def by blast
    then show ?thesis using task_step_keeps by blast
  qed
qed

lemma task_steps_worker: "(task_step e)\<^sup>*\<^sup>* w w' \<Longrightarrow> worker_step\<^sup>*\<^sup>* w w'"
  by (rule rtranclp_mono[THEN predicate2D]) (auto intro: task_step_worker)

text \<open>C16 The worker never gets stuck: while Python answers and the process has not ended, every reachable
  state can run on to one where every task that was under way is over, no slot is taken and both counters are zero.\<close>

theorem worker_drains:
  assumes "worker_reachable w" "fatal w = None" "python_ok e"
  shows "\<exists>w'. worker_step\<^sup>*\<^sup>* w w' \<and> (\<forall>p \<in># tasks w'. finished p) \<and> size (tasks w') = size (tasks w) \<and>
    semaphore w' = 0 \<and> numRunningTasks w' = 0 \<and> numQueuedTasks w' = 0"
proof -
  obtain w' where w': "(task_step e)\<^sup>*\<^sup>* w w'" "worker_inv w'" "size (tasks w') = size (tasks w)"
    and fin: "\<forall>p \<in># tasks w'. finished p"
    using wd.drains[of w "size (tasks w)" e] worker_inv_reachable[OF assms(1)] assms(2,3) by blast
  from all_finished[OF w'(2) fin] show ?thesis using w' fin task_steps_worker by blast
qed

theorem worker_drains_witness:
  "\<exists>w'. worker_step\<^sup>*\<^sup>* busy_worker w' \<and> (\<forall>p \<in># tasks w'. finished p) \<and>
     size (tasks w') = size (tasks busy_worker) \<and>
     semaphore w' = 0 \<and> numRunningTasks w' = 0 \<and> numQueuedTasks w' = 0"
  by (rule worker_drains[where e = "\<lparr>e_fetch = Inr \<lparr>feresp_SerializedFunc = []\<rparr>,
        e_python = (\<lambda>_. Inr []), e_store = Inr (status True), e_elapsed = 0\<rparr>"])
    (use busy_worker_reachable in \<open>simp_all add: busy_worker_def new_worker_def python_ok_def DecodeString_def\<close>)

section \<open>The pipe\<close>

lemma split_payload:
  "split_lines (payload f args kwargs) = [EncodeToString f, EncodeToString args, EncodeToString kwargs]"
  using split_join[of "map EncodeToString [f, args, kwargs]"]
  by (simp add: payload_def EncodeToString_no_newline)

lemma execute_py_payload:
  "execute_py call (payload f args kwargs) =
     Inr (case call f args kwargs of
            (printed, Inl txt) \<Rightarrow> printed @ exception_line txt
          | (printed, Inr result) \<Rightarrow> printed @ EncodeToString result)"
  by (simp add: execute_py_def split_payload Let_def)

lemma decodeMap_space: "decodeMap (CHR '' '') = None"
  by code_simp

lemma foreign_space: "CHR '' '' \<in> set s \<Longrightarrow> DecodeString s = None"
  unfolding DecodeString_def
  by (rule decode_from_foreign[of "CHR '' ''"]) (simp_all add: decodeMap_space newline_def)

text \<open>C21 The pipe is faithful: \<open>execute.py\<close> applies exactly the function, the arguments and the
  keyword arguments \<open>executeFunction\<close> was given, and the result comes back as the very bytes Python
  pickled. A function that raises, or that prints a text with a space in it, ends the worker
  process instead.\<close>

theorem executeFunction_pipe:
  "(call f args kwargs = ([], Inr result) \<longrightarrow>
      executeFunction (execute_py call) f args kwargs = Return (Some result, None)) \<and>
   (call f args kwargs = (printed, Inl txt) \<longrightarrow>
      executeFunction (execute_py call) f args kwargs = Fatal ''Error decoding Base64'') \<and>
   (call f args kwargs = (printed, Inr result) \<and> CHR '' '' \<in> set printed \<longrightarrow>
      executeFunction (execute_py call) f args kwargs = Fatal ''Error decoding Base64'')"
  by (simp add: executeFunction_def execute_py_payload exception_line_def foreign_space)

theorem executeFunction_pipe_witness:
  "executeFunction (execute_py (\<lambda>f a k. ([], Inr (f @ a @ k)))) [1] [2, 3] [] = Return (Some [1, 2, 3], None) \<and>
   executeFunction (execute_py (\<lambda>f a k. ([], Inl ''division by zero''))) [1] [2, 3] [] =
     Fatal ''Error decoding Base64'' \<and>
   executeFunction (execute_py (\<lambda>f a k. (''hi there'', Inr f))) [1] [2, 3] [] =
     Fatal ''Error decoding Base64''"
  using executeFunction_pipe[of "\<lambda>f a k. ([], Inr (f @ a @ k))" "[1]" "[2, 3]" "[]" "[1, 2, 3]"]
    executeFunction_pipe[of "\<lambda>f a k. ([], Inl ''division by zero'')" "[1]" "[2, 3]" "[]" _ "[]"]
    executeFunction_pipe[of "\<lambda>f a k. (''hi there'', Inr f)" "[1]" "[2, 3]" "[]" "[1]" "''hi there''"]
  by simp

section \<open>One call of Run\<close>

text \<open>What \<open>Run\<close> returns when a slot is free, and what it asked of others.\<close>

definition Run_spec :: "run_env \<Rightarrow> RunRequest \<Rightarrow> bool \<Rightarrow> StatusResponse ret outcome \<times> worker_call list" where
  "Run_spec e req alive =
     (let fetch = CallFetchFunc \<lparr>fe_Name = run_Name req, fe_CallbackNodeId = 0\<rparr> in
      case e_fetch e of
        Inl err \<Rightarrow> (Return (None, Some err), [fetch])
      | Inr f \<Rightarrow>
          (case executeFunction (e_python e) (feresp_SerializedFunc f) (run_Args req) (run_Kwargs req) of
             Return (Some output, None) \<Rightarrow>
               if \<not> alive then (Goexit, [fetch])
               else (case e_store e of Inl err \<Rightarrow> Return (None, Some err)
                                     | Inr _ \<Rightarrow> Return (Some (status True), None),
                     [fetch, CallStore \<lparr>st_Uid = run_Uid req, st_ObjectBytes = output\<rparr>])
           | out \<Rightarrow> (Fatal (case out of Fatal msg \<Rightarrow> msg | _ \<Rightarrow> []), [fetch])))"

lemma executeFunction_cases:
  obtains (ok) data where "executeFunction python f args kwargs = Return (Some data, None)"
  | (fatal) msg where "executeFunction python f args kwargs = Fatal msg"
proof (cases "\<exists>msg. executeFunction python f args kwargs = Fatal msg")
  case False
  then show ?thesis using ok by (auto simp: executeFunction_def split: sum.splits option.splits)
qed (use fatal in blast)

lemma Run_follow_numeral: "Run_follow 8 e pw = Run_follow (Suc (Suc (Suc (Suc (Suc (Suc (Suc (Suc 0)))))))) e pw"
  by (simp add: numeral_eq_Suc)

text \<open>C22 A call of \<open>Run\<close> that finds a free slot: it fetches the named function, and on an error
  returns it; it runs the function; if the worker was killed meanwhile the result is dropped and
  the goroutine ends, otherwise the result is stored under the request's uid and the store's answer
  decides. Only a success moves the average. Whenever the process survives, the slot and both
  counters are as before.\<close>

theorem Run_result:
  assumes "fatal w = None" "semaphore w < 10" "Run e req w = (p, w')"
  shows "w_calls w' = w_calls w @ snd (Run_spec e req (w_alive w)) \<and>
    (case fst (Run_spec e req (w_alive w)) of
       Fatal msg \<Rightarrow> fatal w' = Some msg
     | out \<Rightarrow> p = RDone out \<and> fatal w' = None \<and> semaphore w' = semaphore w \<and>
         numRunningTasks w' = numRunningTasks w \<and> numQueuedTasks w' = numQueuedTasks w \<and>
         averageRunningTime w' =
           (if out = Return (Some (status True), None)
            then update_average (averageRunningTime w) (e_elapsed e) else averageRunningTime w))"
proof (cases "e_fetch e")
  case (Inl err)
  with assms show ?thesis
    by (auto simp: Run_def Run_follow_numeral Run_enter_def Run_spec_def MAX_CONCURRENT_TASKS_def Let_def)
next
  case (Inr f)
  show ?thesis
  proof (cases rule: executeFunction_cases[of "e_python e" "feresp_SerializedFunc f" "run_Args req" "run_Kwargs req"])
    case (ok data)
    with assms Inr show ?thesis
      by (cases "e_store e"; cases "w_alive w")
        (auto simp: Run_def Run_follow_numeral Run_enter_def Run_spec_def MAX_CONCURRENT_TASKS_def Let_def)
  next
    case (fatal msg)
    with assms Inr show ?thesis
      by (auto simp: Run_def Run_follow_numeral Run_enter_def Run_spec_def MAX_CONCURRENT_TASKS_def Let_def)
  qed
qed

theorem Run_result_witness:
  "\<exists>w'. Run \<lparr>e_fetch = Inr \<lparr>feresp_SerializedFunc = [9]\<rparr>, e_python = (\<lambda>_. Inr (EncodeToString [5])),
               e_store = Inr (status True), e_elapsed = 0\<rparr>
         \<lparr>run_Uid = 1, run_Name = 4, run_Args = [], run_Kwargs = []\<rparr> new_worker
       = (RDone (Return (Some (status True), None)), w') \<and>
     w_calls w' = [CallFetchFunc \<lparr>fe_Name = 4, fe_CallbackNodeId = 0\<rparr>,
                   CallStore \<lparr>st_Uid = 1, st_ObjectBytes = [5]\<rparr>]"
proof -
  let ?e = "\<lparr>e_fetch = Inr \<lparr>feresp_SerializedFunc = [9]\<rparr>, e_python = (\<lambda>_. Inr (EncodeToString [5])),
               e_store = Inr (status True), e_elapsed = 0\<rparr>"
  let ?req = "\<lparr>run_Uid = 1, run_Name = 4, run_Args = [], run_Kwargs = []\<rparr>"
  obtain p w' where r: "Run ?e ?req new_worker = (p, w')" by fastforce
  have "fatal new_worker = None" "semaphore new_worker < 10" by (simp_all add: new_worker_def)
  from Run_result[OF this r] r show ?thesis
    by (simp add: Run_spec_def executeFunction_def Let_def new_worker_def del: EncodeToString.simps)
qed

section \<open>The moving average\<close>

lemma pow2_code [simp]: "pow2 0 = 1" "pow2 (numeral k) = 2 ^ numeral k" "pow2 (- numeral k) = 1 / 2 ^ numeral k"
  by (simp_all add: pow2_def)

lemma ema_consts:
  "f32_const EMA_PARAM = Fin (7549747 / 8388608)" "f32_const (1 - EMA_PARAM) = Fin (13421773 / 134217728)"
  "f32_const (1 / 10) = Fin (13421773 / 134217728)"
  by code_simp+

lemma billion: "fl_const binary64 1000000000 = Fin 1000000000"
  by code_simp

abbreviation limit :: rat where
  "limit \<equiv> of_int 1 * pow2 34"

lemma Seconds_upto:
  assumes "0 \<le> d" "d < 2 ^ 63"
  shows "fl_upto limit (Seconds d)"
proof -
  let ?sec = "d div 1000000000" and ?nsec = "d mod 1000000000"
  have sec: "fl_upto (of_int 9223372037 * pow2 0) (fl_of_int binary64 ?sec)"
    unfolding fl_of_int_def by (rule rnd_upto) (use assms in \<open>auto simp: repr64\<close>)
  have nsec: "fl_upto (of_int 1 * pow2 0) (fl_div binary64 (fl_of_int binary64 ?nsec) (fl_const binary64 1000000000))"
  proof (rule fl_div_upto[OF _ billion])
    have "fl_upto (of_int 1000000000 * pow2 0) (fl_of_int binary64 ?nsec)"
      unfolding fl_of_int_def by (rule rnd_upto) (auto simp: repr64 less_imp_le)
    then show "fl_upto 1000000000 (fl_of_int binary64 ?nsec)" by simp
    then show "fin_val (fl_of_int binary64 ?nsec) / 1000000000 \<le> of_int 1 * pow2 0"
      using upto_fin_val by fastforce
  qed (simp_all add: repr64)
  have "fl_upto limit (fl_add binary64 (fl_of_int binary64 ?sec)
      (fl_div binary64 (fl_of_int binary64 ?nsec) (fl_const binary64 1000000000)))"
    using sec nsec by (rule fl_add_upto)
      (use upto_fin_val[OF sec] upto_fin_val[OF nsec] in \<open>simp_all add: repr64\<close>)
  then show ?thesis using assms(1) by (simp add: Seconds_def Let_def minus_div_mult_eq_mod)
qed

lemma update_average_upto:
  assumes "fl_upto limit avg" "0 \<le> d" "d < 2 ^ 63"
  shows "fl_upto limit (update_average avg d)"
proof -
  have rt: "fl_upto limit (fl_conv binary32 (Seconds d))"
    using Seconds_upto[OF assms(2,3)] by (rule fl_conv_upto) (simp_all add: repr32)
  have c: "fl_upto 1 (f32_const EMA_PARAM)" "fl_upto 1 (f32_const (1 - EMA_PARAM))"
    by (simp_all add: ema_consts fl_upto_def)
  have old: "fl_upto (of_int 7549747 * pow2 11) (f32_mul (f32_const EMA_PARAM) avg)"
    using c(1) assms(1) by (rule fl_mul_upto)
      (use upto_fin_val[OF assms(1)] in \<open>simp_all add: ema_consts repr32 fin_val_def[of "Fin _"]\<close>)
  have new: "fl_upto (of_int 13421773 * pow2 7) (f32_mul (f32_const (1 - EMA_PARAM)) (fl_conv binary32 (Seconds d)))"
    using c(2) rt by (rule fl_mul_upto)
      (use upto_fin_val[OF rt] in \<open>simp_all add: ema_consts repr32 fin_val_def[of "Fin _"]\<close>)
  show ?thesis unfolding update_average_def Let_def
    using old new by (rule fl_add_upto)
      (use upto_fin_val[OF old] upto_fin_val[OF new] in \<open>simp_all add: repr32\<close>)
qed

text \<open>
  Steps in which the clock is sane: the time a task took is a non-negative number of nanoseconds
  that fits the 64 bits of a \<open>Duration\<close>.
\<close>

inductive clocked_step :: "workerServer \<Rightarrow> workerServer \<Rightarrow> bool" where
  other: "worker_step w w' \<Longrightarrow> averageRunningTime w' = averageRunningTime w \<Longrightarrow> clocked_step w w'"
| task: "fatal w = None \<Longrightarrow> tasks w = add_mset p M \<Longrightarrow> 0 \<le> e_elapsed e \<Longrightarrow> e_elapsed e < 2 ^ 63 \<Longrightarrow>
    Run_next e p w = Some (p', w') \<Longrightarrow> clocked_step w (w'\<lparr>tasks := add_mset p' M\<rparr>)"

lemma Run_next_average:
  assumes "Run_next e p w = Some (p', w')"
  shows "averageRunningTime w' = averageRunningTime w \<or>
    averageRunningTime w' = update_average (averageRunningTime w) (e_elapsed e)"
proof (cases p)
  case (RFetched req f)
  with assms show ?thesis
    by (cases rule: executeFunction_cases[of "e_python e" f "run_Args req" "run_Kwargs req"]) auto
qed (use assms in \<open>auto simp: Let_def split: if_splits sum.splits\<close>)

lemma fl_upto_numeral:
  "fl_upto c x \<Longrightarrow> 0 \<le> c \<Longrightarrow> x = Zero False \<or> (\<exists>q. x = Fin q \<and> 0 < q \<and> q \<le> c)"
  by (cases x) (auto simp: fl_upto_def)

interpretation av: step_invariant clocked_step "\<lambda>w. fl_upto limit (averageRunningTime w)"
proof
  show "fl_upto limit (averageRunningTime w')"
    if "clocked_step w w'" "fl_upto limit (averageRunningTime w)" for w w'
    using that
  proof (induction rule: clocked_step.induct)
    case (task w p M e p' w')
    then show ?case using Run_next_average[OF task.hyps(5)] update_average_upto by auto
  qed simp
qed

lemma average_upto:
  assumes "clocked_step\<^sup>*\<^sup>* new_worker w"
  shows "fl_upto (2 ^ 34) (averageRunningTime w)"
proof -
  have "fl_upto limit (averageRunningTime new_worker)"
    by (simp add: new_worker_def ema_consts fl_upto_def)
  with av.steps_inv[OF assms] show ?thesis by simp
qed

text \<open>A call followed to its end is a sequence of such steps of the worker around it.\<close>

lemma Run_next_tasks:
  "Run_next e p (w\<lparr>tasks := T\<rparr>) = map_option (\<lambda>(p', w'). (p', w'\<lparr>tasks := T\<rparr>)) (Run_next e p w)"
proof (cases p)
  case (RFetched req f)
  then show ?thesis
    by (cases rule: executeFunction_cases[of "e_python e" f "run_Args req" "run_Kwargs req"]) auto
qed (auto simp: Let_def split: sum.splits)

lemma Run_follow_clocked:
  assumes "0 \<le> e_elapsed e" "e_elapsed e < 2 ^ 63" "Run_follow n e (p, w) = (p', w')"
  shows "clocked_step\<^sup>*\<^sup>* (w\<lparr>tasks := add_mset p M\<rparr>) (w'\<lparr>tasks := add_mset p' M\<rparr>)"
  using assms(3)
proof (induction n arbitrary: p w)
  case (Suc n)
  show ?case
  proof (cases "fatal w = None \<and> Run_next e p w \<noteq> None")
    case True
    then obtain q v where q: "Run_next e p w = Some (q, v)" by auto
    have "clocked_step (w\<lparr>tasks := add_mset p M\<rparr>)
        ((v\<lparr>tasks := add_mset p M\<rparr>)\<lparr>tasks := add_mset q M\<rparr>)"
      by (rule clocked_step.task[OF _ _ assms(1,2)]) (use True q in \<open>auto simp: Run_next_tasks\<close>)
    then have "clocked_step (w\<lparr>tasks := add_mset p M\<rparr>) (v\<lparr>tasks := add_mset q M\<rparr>)" by simp
    with Suc.IH[of q v] Suc.prems True q show ?thesis by (simp add: converse_rtranclp_into_rtranclp)
  qed (use Suc.prems in \<open>auto split: if_splits option.splits\<close>)
qed simp

lemma Run_clocked:
  assumes "0 \<le> e_elapsed e" "e_elapsed e < 2 ^ 63" "fatal w = None" "Run e req w = (p, w')"
  shows "clocked_step\<^sup>*\<^sup>* w (w'\<lparr>tasks := add_mset p (tasks w)\<rparr>)"
proof -
  obtain q v where q: "Run_enter req w = (q, v)" by fastforce
  then have "clocked_step w (v\<lparr>tasks := add_mset q (tasks w)\<rparr>)"
    by (intro clocked_step.other[OF worker_step.enter[OF assms(3) q]]) (auto simp: Run_enter_def)
  with Run_follow_clocked[OF assms(1,2), of 8 q v p w' "tasks w"] assms(4) q show ?thesis
    by (simp add: Run_def converse_rtranclp_into_rtranclp)
qed

text \<open>C23 The average running time a worker reports is always a number: never NaN, never infinite,
  never negative, and at most \<open>2 ^ 34\<close> seconds (just above the longest \<open>Duration\<close>), however many
  roundings it went through.\<close>

theorem average_stays_a_number:
  assumes "clocked_step\<^sup>*\<^sup>* new_worker w"
  shows "averageRunningTime w = Zero False \<or>
    (\<exists>q. averageRunningTime w = Fin q \<and> 0 < q \<and> q \<le> 2 ^ 34)"
  using fl_upto_numeral[OF average_upto[OF assms]] by simp

theorem average_stays_a_number_witness:
  "let e = \<lparr>e_fetch = Inr \<lparr>feresp_SerializedFunc = [9]\<rparr>, e_python = (\<lambda>_. Inr (EncodeToString [5])),
            e_store = Inr (status True), e_elapsed = 2500000000\<rparr>;
       req = \<lparr>run_Uid = 1, run_Name = 4, run_Args = [], run_Kwargs = []\<rparr>;
       w = snd (Run e req new_worker)
   in averageRunningTime w = update_average (averageRunningTime new_worker) 2500000000 \<and>
      (averageRunningTime w = Zero False \<or> (\<exists>q. averageRunningTime w = Fin q \<and> 0 < q \<and> q \<le> 2 ^ 34))"
proof -
  let ?e = "\<lparr>e_fetch = Inr \<lparr>feresp_SerializedFunc = [9]\<rparr>, e_python = (\<lambda>_. Inr (EncodeToString [5])),
             e_store = Inr (status True), e_elapsed = 2500000000\<rparr>"
  let ?req = "\<lparr>run_Uid = 1, run_Name = 4, run_Args = [], run_Kwargs = []\<rparr>"
  obtain p w where r: "Run ?e ?req new_worker = (p, w)" by fastforce
  have n: "fatal new_worker = None" "semaphore new_worker < MAX_CONCURRENT_TASKS" "w_alive new_worker"
    by (simp_all add: new_worker_def MAX_CONCURRENT_TASKS_def)
  from r have "averageRunningTime w = update_average (averageRunningTime new_worker) 2500000000"
    using n by (auto simp: Run_def Run_follow_numeral Run_enter_def executeFunction_def Let_def
        simp del: EncodeToString.simps)
  with average_stays_a_number[OF Run_clocked[OF _ _ n(1) r]] r show ?thesis by simp
qed

end
