(* ===== verification/Local_Scheduler.thy ===== *)
theory Local_Scheduler
  imports BR_Messages BR_Net GCS_Db
begin

text \<open>
  The local scheduler (\<open>src/go/cmd/localscheduler/main.go\<close>): it names a task, records its
  lineage at the GCS, and gives it to the local worker or to the global scheduler; a background
  loop reports the worker's state to the global scheduler.
\<close>

section \<open>Scheduling\<close>

record ls_server =
  ls_localNodeID :: u64
  ls_alive :: bool

definition MAX_TASKS :: u32 where
  "MAX_TASKS = 10"

definition TruncateHighBit :: "u64 \<Rightarrow> u64" where
  "TruncateHighBit u = and u (drop_bit 1 (- 1))"

text \<open>Calls to other services, in the order in which they are made.\<close>

datatype ls_call =
    CallRegisterLineage GlobalScheduleRequest
  | CallWorkerStatus
  | CallRegisterGenerating GeneratingRequest
  | CallRun RunRequest
  | CallGlobalSchedule GlobalScheduleRequest

text \<open>The request literals of \<open>Schedule\<close>: fields not named are zero.\<close>

definition global_request :: "u64 \<Rightarrow> ScheduleRequest \<Rightarrow> GlobalScheduleRequest" where
  "global_request uid req =
     \<lparr>gs_Uid = uid, gs_Name = sr_Name req, gs_Args = sr_Args req, gs_Kwargs = sr_Kwargs req,
      gs_Uids = sr_Uids req, gs_NewObject = False, gs_NodeId = 0, gs_LocalityFlag = False\<rparr>"

text \<open>
  \<open>Schedule\<close> for a draw \<open>r\<close> of \<open>rand.Uint64\<close> and the worker's answer \<open>st\<close>, if it is asked.
  The results are what is returned, the calls made before returning, and the calls of the
  goroutine that is started. The error of \<open>WorkerStatus\<close> is dropped, and reading a field of the
  nil response ends the process.
\<close>

definition ls_Schedule ::
  "u64 \<Rightarrow> WorkerStatusResponse rpc \<Rightarrow> ScheduleRequest \<Rightarrow> ls_server \<Rightarrow>
     ScheduleResponse ret outcome \<times> ls_call list \<times> ls_call list" where
  "ls_Schedule r st req s =
     (let uid = TruncateHighBit r;
          lineage = CallRegisterLineage (global_request uid req);
          resp = Return (Some \<lparr>sresp_Uid = uid\<rparr>, None) in
      if sr_NodeId req \<noteq> 0 then
        (resp, [lineage],
         [CallGlobalSchedule ((global_request uid req)\<lparr>gs_NewObject := True, gs_NodeId := sr_NodeId req\<rparr>)])
      else
        (case st of
           Inl e \<Rightarrow> (Fatal ''nil pointer dereference'', [lineage, CallWorkerStatus], [])
         | Inr scheduleLocally \<Rightarrow>
             if ws_NumRunningTasks scheduleLocally < MAX_TASKS then
               (resp, [lineage, CallWorkerStatus],
                [CallRegisterGenerating \<lparr>gen_Uid = uid, gen_NodeId = ls_localNodeID s\<rparr>,
                 CallRun \<lparr>run_Uid = uid, run_Name = sr_Name req, run_Args = sr_Args req,
                          run_Kwargs = sr_Kwargs req\<rparr>])
             else
               (resp, [lineage, CallWorkerStatus],
                [CallGlobalSchedule ((global_request uid req)
                   \<lparr>gs_NewObject := True, gs_LocalityFlag := sr_LocalityFlag req\<rparr>)])))"

definition ls_KillServer :: "ls_server \<Rightarrow> StatusResponse ret \<times> ls_server" where
  "ls_KillServer s = ((Some (status True), None), s\<lparr>ls_alive := False\<rparr>)"

definition ls_ReviveServer :: "ls_server \<Rightarrow> StatusResponse ret \<times> ls_server" where
  "ls_ReviveServer s = ((Some (status True), None), s\<lparr>ls_alive := True\<rparr>)"

section \<open>Heartbeats\<close>

text \<open>
  The retry loop around a call: \<open>answers\<close> are what the calls return one after the other. The
  result is the first success with the sleeps (in seconds) before it and the answers not used
  up; \<open>None\<close> while every answer so far was an error.
\<close>

definition next_backoff :: "nat \<Rightarrow> nat" where
  "next_backoff b = (if b * 2 > 32 then 32 else b * 2)"

fun retry :: "nat \<Rightarrow> 'a rpc list \<Rightarrow> ('a \<times> nat list \<times> 'a rpc list) option" where
  "retry backoff [] = None"
| "retry backoff (Inr x # answers) = Some (x, [], answers)"
| "retry backoff (Inl e # answers) =
     (case retry (next_backoff backoff) answers of
        None \<Rightarrow> None
      | Some (x, sleeps, rest) \<Rightarrow> Some (x, backoff # sleeps, rest))"

text \<open>Milliseconds between two rounds of \<open>SendHeartbeats\<close>.\<close>

definition HEARTBEAT_WAIT :: nat where
  "HEARTBEAT_WAIT = 100"

text \<open>
  One round of the loop of \<open>SendHeartbeats\<close>: the request it sends, if the server is alive, and
  the milliseconds it slept.
\<close>

definition heartbeat_round ::
  "WorkerStatusResponse rpc list \<Rightarrow> BandwidthResponse rpc list \<Rightarrow> u64 \<Rightarrow> ls_server \<Rightarrow>
     (HeartbeatRequest option \<times> nat) option" where
  "heartbeat_round statuses bandwidths nodeId s =
     (if \<not> ls_alive s then Some (None, HEARTBEAT_WAIT)
      else case retry 1 statuses of
        None \<Rightarrow> None
      | Some (st, sleeps, _) \<Rightarrow>
          (case retry 1 bandwidths of
             None \<Rightarrow> None
           | Some (bw, sleeps', _) \<Rightarrow>
               Some (Some \<lparr>hb_RunningTasks = ws_NumRunningTasks st, hb_QueuedTasks = ws_NumQueuedTasks st,
                        hb_AvgRunningTime = ws_AverageRunningTime st,
                        hb_AvgBandwidth = bw_AvgBandwidth bw, hb_NodeId = nodeId\<rparr>,
                     1000 * (sum_list sleeps + sum_list sleeps') + HEARTBEAT_WAIT)))"

text \<open>
  The endless loop, for as many rounds as there are answers: what it sends, round by round. Each
  round comes with the server as it is then (\<open>KillServer\<close> and \<open>ReviveServer\<close> may have run in
  between) and with the answers its calls get.
\<close>

fun heartbeat_loop ::
  "(ls_server \<times> WorkerStatusResponse rpc list \<times> BandwidthResponse rpc list) list \<Rightarrow> u64 \<Rightarrow>
     HeartbeatRequest list" where
  "heartbeat_loop [] nodeId = []"
| "heartbeat_loop ((s, sts, bws) # rounds) nodeId =
     (case heartbeat_round sts bws nodeId s of
        None \<Rightarrow> []
      | Some (None, _) \<Rightarrow> heartbeat_loop rounds nodeId
      | Some (Some hb, _) \<Rightarrow> hb # heartbeat_loop rounds nodeId)"

text \<open>\<open>SendHeartbeats\<close> dials the worker and the object store first; an error ends the process.\<close>

definition local_address :: "int \<Rightarrow> string" where
  "local_address port = ''localhost:'' @ Itoa port"

definition SendHeartbeats ::
  "int \<Rightarrow> int \<Rightarrow> go_error option \<Rightarrow> go_error option \<Rightarrow>
     (ls_server \<times> WorkerStatusResponse rpc list \<times> BandwidthResponse rpc list) list \<Rightarrow> u64 \<Rightarrow>
     HeartbeatRequest list outcome" where
  "SendHeartbeats workerPort lobsPort workerErr lobsErr rounds nodeId =
     (case workerErr of
        Some e \<Rightarrow> Fatal (''failed to connect to '' @ local_address workerPort @ '': '' @ err_text e)
      | None \<Rightarrow>
          (case lobsErr of
             Some e \<Rightarrow> Fatal (''failed to connect to '' @ local_address lobsPort @ '': '' @ err_text e)
           | None \<Rightarrow> Return (heartbeat_loop rounds nodeId)))"

section \<open>Names of objects\<close>

lemma mask63: "drop_bit 1 (- 1 :: u64) = mask 63"
  by (simp add: mask_eq_exp_minus_1)

lemma TruncateHighBit_take: "TruncateHighBit u = take_bit 63 u"
  by (simp only: TruncateHighBit_def mask63 flip: take_bit_eq_mask)

lemma TruncateHighBit_less: "TruncateHighBit u < 2 ^ 63"
  unfolding TruncateHighBit_take word_less_nat_alt unsigned_take_bit_eq
  by (rule order_less_le_trans[OF take_bit_nat_less_exp]) simp

lemma TruncateHighBit_id: "u < 2 ^ 63 \<Longrightarrow> TruncateHighBit u = u"
  unfolding TruncateHighBit_take word_unat_eq_iff unsigned_take_bit_eq
  by (simp add: take_bit_nat_eq_self word_less_nat_alt)

text \<open>C38 The uid of every task \<open>Schedule\<close> names is one the GCS can write to its database: the
  driver takes it as an argument, alone or among others it takes; and a number the driver already
  takes is left as it is.\<close>

theorem scheduled_uid_is_storable:
  assumes "ls_Schedule r st req s = (Return (Some resp, err), calls, bg)"
  shows "sresp_Uid resp < 2 ^ 63 \<and>
    (driverArgs as = Inr as \<longrightarrow> driverArgs (sresp_Uid resp # as) = Inr (sresp_Uid resp # as)) \<and>
    (r < 2 ^ 63 \<longrightarrow> sresp_Uid resp = r)"
proof -
  have "sresp_Uid resp = TruncateHighBit r"
    using assms by (auto simp: ls_Schedule_def Let_def split: if_splits sum.splits)
  then show ?thesis using TruncateHighBit_less[of r] TruncateHighBit_id[of r] by (auto simp: not_le)
qed

theorem scheduled_uid_is_storable_witness:
  "\<exists>resp calls bg. ls_Schedule (- 1) (Inr \<lparr>ws_NumRunningTasks = 0, ws_NumQueuedTasks = 0, ws_AverageRunningTime = Zero False\<rparr>)
       \<lparr>sr_Name = 1, sr_Args = [], sr_Kwargs = [], sr_Uids = [], sr_NodeId = 0, sr_LocalityFlag = False\<rparr>
       \<lparr>ls_localNodeID = 2, ls_alive = True\<rparr> = (Return (Some resp, None), calls, bg) \<and>
     driverArgs [sresp_Uid resp, 2] = Inr [sresp_Uid resp, 2]"
proof -
  let ?st = "Inr \<lparr>ws_NumRunningTasks = 0, ws_NumQueuedTasks = 0, ws_AverageRunningTime = Zero False\<rparr>"
  let ?req = "\<lparr>sr_Name = 1, sr_Args = [], sr_Kwargs = [], sr_Uids = [], sr_NodeId = 0, sr_LocalityFlag = False\<rparr>"
  let ?s = "\<lparr>ls_localNodeID = 2, ls_alive = True\<rparr>"
  obtain resp calls bg where r: "ls_Schedule (- 1) ?st ?req ?s = (Return (Some resp, None), calls, bg)"
    by (simp add: ls_Schedule_def Let_def MAX_TASKS_def)
  from scheduled_uid_is_storable[OF r, of "[2]"] r show ?thesis by fastforce
qed

section \<open>Placing a task\<close>

text \<open>The task a request describes.\<close>

abbreviation same_task :: "ScheduleRequest \<Rightarrow> u64 \<Rightarrow> GlobalScheduleRequest \<Rightarrow> bool" where
  "same_task req uid g \<equiv> gs_Uid g = uid \<and> gs_Name g = sr_Name req \<and> gs_Args g = sr_Args req \<and>
     gs_Kwargs g = sr_Kwargs req \<and> gs_Uids g = sr_Uids req"

text \<open>C24 A \<open>Schedule\<close> that returns has recorded the task's lineage first and hands the task to
  exactly one place, under the uid it returns: to the local worker, announced at the GCS as being
  generated here, when the client named no node and the worker runs fewer than ten tasks; to the
  global scheduler otherwise, with the client's node. The recorded lineage never says which node the
  client asked for.\<close>

theorem Schedule_places_once:
  assumes "ls_Schedule r st req s = (Return (Some resp, err), calls, bg)"
  shows "err = None \<and>
    (\<exists>lin. hd calls = CallRegisterLineage lin \<and> same_task req (sresp_Uid resp) lin \<and> gs_NodeId lin = 0) \<and>
    (if sr_NodeId req = 0 \<and> (\<exists>w. st = Inr w \<and> unat (ws_NumRunningTasks w) < 10)
     then bg = [CallRegisterGenerating \<lparr>gen_Uid = sresp_Uid resp, gen_NodeId = ls_localNodeID s\<rparr>,
                CallRun \<lparr>run_Uid = sresp_Uid resp, run_Name = sr_Name req, run_Args = sr_Args req,
                         run_Kwargs = sr_Kwargs req\<rparr>]
     else \<exists>g. bg = [CallGlobalSchedule g] \<and> same_task req (sresp_Uid resp) g \<and>
            gs_NodeId g = sr_NodeId req)"
proof -
  show ?thesis
  proof (cases "sr_NodeId req = 0")
    case False
    with assms have "resp = \<lparr>sresp_Uid = TruncateHighBit r\<rparr>" "err = None"
      "calls = [CallRegisterLineage (global_request (TruncateHighBit r) req)]"
      "bg = [CallGlobalSchedule ((global_request (TruncateHighBit r) req)
               \<lparr>gs_NewObject := True, gs_NodeId := sr_NodeId req\<rparr>)]"
      by (simp_all add: ls_Schedule_def Let_def)
    with False show ?thesis by (simp add: global_request_def)
  next
    case True
    show ?thesis
    proof (cases st)
      case (Inl e)
      with True assms show ?thesis by (simp add: ls_Schedule_def Let_def)
    next
      case (Inr w)
      have small: "ws_NumRunningTasks w < 10 \<longleftrightarrow> unat (ws_NumRunningTasks w) < 10"
        by (simp add: word_less_nat_alt)
      from True Inr assms have "resp = \<lparr>sresp_Uid = TruncateHighBit r\<rparr>" "err = None"
        "calls = [CallRegisterLineage (global_request (TruncateHighBit r) req), CallWorkerStatus]"
        by (simp_all add: ls_Schedule_def Let_def split: if_splits)
      moreover from True Inr assms small have
        "bg = (if unat (ws_NumRunningTasks w) < 10
               then [CallRegisterGenerating \<lparr>gen_Uid = TruncateHighBit r, gen_NodeId = ls_localNodeID s\<rparr>,
                     CallRun \<lparr>run_Uid = TruncateHighBit r, run_Name = sr_Name req, run_Args = sr_Args req,
                              run_Kwargs = sr_Kwargs req\<rparr>]
               else [CallGlobalSchedule ((global_request (TruncateHighBit r) req)
                       \<lparr>gs_NewObject := True, gs_LocalityFlag := sr_LocalityFlag req\<rparr>)])"
        by (simp add: ls_Schedule_def Let_def MAX_TASKS_def split: if_splits)
      ultimately show ?thesis using True Inr by (simp add: global_request_def)
    qed
  qed
qed

theorem Schedule_places_once_witness:
  "\<exists>resp calls. ls_Schedule 5 (Inr \<lparr>ws_NumRunningTasks = 9, ws_NumQueuedTasks = 0, ws_AverageRunningTime = Zero False\<rparr>)
       \<lparr>sr_Name = 1, sr_Args = [], sr_Kwargs = [], sr_Uids = [], sr_NodeId = 0, sr_LocalityFlag = False\<rparr>
       \<lparr>ls_localNodeID = 2, ls_alive = True\<rparr> =
     (Return (Some resp, None), calls,
      [CallRegisterGenerating \<lparr>gen_Uid = sresp_Uid resp, gen_NodeId = 2\<rparr>,
       CallRun \<lparr>run_Uid = sresp_Uid resp, run_Name = 1, run_Args = [], run_Kwargs = []\<rparr>])"
proof -
  let ?st = "Inr \<lparr>ws_NumRunningTasks = 9, ws_NumQueuedTasks = 0, ws_AverageRunningTime = Zero False\<rparr>"
  let ?req = "\<lparr>sr_Name = 1, sr_Args = [], sr_Kwargs = [], sr_Uids = [], sr_NodeId = 0, sr_LocalityFlag = False\<rparr>"
  let ?s = "\<lparr>ls_localNodeID = 2, ls_alive = True\<rparr>"
  obtain resp calls bg where r: "ls_Schedule 5 ?st ?req ?s = (Return (Some resp, None), calls, bg)"
    by (simp add: ls_Schedule_def Let_def MAX_TASKS_def)
  from Schedule_places_once[OF r] r show ?thesis by auto
qed

text \<open>\<open>Schedule\<close> ends the process exactly when the client named no node and the worker could
  not be asked; the task's lineage is registered even then, and nothing is scheduled.\<close>

theorem Schedule_dies_without_worker:
  "(\<exists>msg. fst (ls_Schedule r st req s) = Fatal msg) \<longleftrightarrow> sr_NodeId req = 0 \<and> (\<exists>e. st = Inl e)"
  by (auto simp: ls_Schedule_def Let_def split: sum.splits)

section \<open>Retrying\<close>

text \<open>The pauses: powers of two up to 32.\<close>

definition pause :: "nat \<Rightarrow> nat" where
  "pause i = min 32 (2 ^ i)"

lemma next_backoff_pause: "next_backoff (pause i) = pause (Suc i)"
  by (simp add: next_backoff_def pause_def min_def)

lemma retry_errors:
  "retry (pause k) (map Inl es @ Inr x # rest) = Some (x, map pause [k ..< k + length es], rest)"
proof (induction es arbitrary: k)
  case (Cons e es)
  have "[k ..< k + length (e # es)] = k # [Suc k ..< Suc k + length es]" by (simp add: upt_rec)
  then show ?case using Cons[of "Suc k"] by (simp add: next_backoff_pause)
qed simp

lemma retry_all_errors: "retry b (map Inl es) = None"
  by (induction es arbitrary: b) auto

lemma answers_cases:
  obtains (errors) es where "answers = map Inl es"
  | (success) es x rest where "answers = map Inl es @ Inr x # rest"
proof (induction answers arbitrary: thesis)
  case Nil
  then show ?case by simp
next
  case (Cons a as)
  note more = Cons.prems
  show ?case
  proof (cases a)
    case (Inr x)
    with more(2)[of "[]" x as] show ?thesis by simp
  next
    case (Inl e)
    show ?thesis
    proof (rule Cons.IH)
      fix es assume "as = map Inl es"
      with Inl more(1)[of "e # es"] show ?thesis by simp
    next
      fix es x rest assume "as = map Inl es @ Inr x # rest"
      with Inl more(2)[of "e # es" x rest] show ?thesis by simp
    qed
  qed
qed

text \<open>C39 The retry loop of the heartbeat ends as soon as one call succeeds, and only then: after
  any number of errors it returns the first success, having slept 1, 2, 4, 8, 16, then always 32
  seconds between its attempts.\<close>

theorem retry_backs_off:
  "retry 1 (map Inl es @ Inr x # rest) = Some (x, map (\<lambda>i. min 32 (2 ^ i)) [0 ..< length es], rest) \<and>
   (retry 1 answers = None \<longleftrightarrow> (\<forall>a \<in> set answers. \<exists>e. a = Inl e))"
proof
  show "retry 1 (map Inl es @ Inr x # rest) = Some (x, map (\<lambda>i. min 32 (2 ^ i)) [0 ..< length es], rest)"
    using retry_errors[of 0 es x rest] by (simp add: pause_def[abs_def])
  show "retry 1 answers = None \<longleftrightarrow> (\<forall>a \<in> set answers. \<exists>e. a = Inl e)"
  proof (cases rule: answers_cases[of answers])
    case (errors es)
    then show ?thesis by (simp add: retry_all_errors image_iff)
  next
    case (success es y rs)
    then show ?thesis using retry_errors[of 0 es y rs] by (auto simp: pause_def[abs_def])
  qed
qed

theorem retry_backs_off_witness:
  "retry 1 [Inl (PlainError ''down''), Inl (PlainError ''down''), Inr (7 :: nat)] = Some (7, [1, 2], []) \<and>
   retry 1 [Inl (PlainError ''down'') :: nat rpc] = None"
  using retry_backs_off[of "[PlainError ''down'', PlainError ''down'']" "7 :: nat" "[]"
      "[Inl (PlainError ''down'')]"]
  by (simp add: upt_rec)

lemma pauses: "sum_list (map pause [0 ..< n]) = (\<Sum>i < n. min 32 (2 ^ i))"
  by (simp add: pause_def sum_list_distinct_conv_sum_set atLeast0LessThan)

lemma heartbeat_round_alive:
  assumes "ls_alive s"
  shows "heartbeat_round (map Inl es @ Inr st # sts) (map Inl es' @ Inr bw # bws) nodeId s =
     Some (Some \<lparr>hb_RunningTasks = ws_NumRunningTasks st, hb_QueuedTasks = ws_NumQueuedTasks st,
              hb_AvgRunningTime = ws_AverageRunningTime st, hb_AvgBandwidth = bw_AvgBandwidth bw,
              hb_NodeId = nodeId\<rparr>,
           1000 * ((\<Sum>i < length es. min 32 (2 ^ i)) + (\<Sum>i < length es'. min 32 (2 ^ i))) + 100)"
  using assms retry_errors[of 0 es st sts] retry_errors[of 0 es' bw bws] pauses[of "length es"] pauses[of "length es'"]
  by (simp add: heartbeat_round_def HEARTBEAT_WAIT_def pause_def)

lemma heartbeat_round_dead: "\<not> ls_alive s \<Longrightarrow> heartbeat_round sts bws nodeId s = Some (None, 100)"
  by (simp add: heartbeat_round_def HEARTBEAT_WAIT_def)

text \<open>A round of the heartbeat loop on a revived server sends the worker's numbers and the store's
  bandwidth of that round unchanged, under the node's own id, and then goes on; rounds on a killed
  server send nothing. The time between two heartbeats is the 100 ms wait plus the pauses of the
  retries.\<close>

theorem heartbeat_reports_worker:
  "heartbeat_loop ((snd (ls_ReviveServer s), map Inl es @ Inr st # sts, map Inl es' @ Inr bw # bws) # rounds) nodeId =
     \<lparr>hb_RunningTasks = ws_NumRunningTasks st, hb_QueuedTasks = ws_NumQueuedTasks st,
      hb_AvgRunningTime = ws_AverageRunningTime st, hb_AvgBandwidth = bw_AvgBandwidth bw,
      hb_NodeId = nodeId\<rparr> # heartbeat_loop rounds nodeId \<and>
   heartbeat_loop (map (\<lambda>(sts, bws). (snd (ls_KillServer s), sts, bws)) dead @ rounds) nodeId =
     heartbeat_loop rounds nodeId \<and>
   map_option snd (heartbeat_round (map Inl es @ Inr st # sts) (map Inl es' @ Inr bw # bws) nodeId
       (snd (ls_ReviveServer s))) =
     Some (1000 * ((\<Sum>i < length es. min 32 (2 ^ i)) + (\<Sum>i < length es'. min 32 (2 ^ i))) + 100)"
proof (intro conjI)
  have alive: "ls_alive (snd (ls_ReviveServer s))" and killed: "\<not> ls_alive (snd (ls_KillServer s))"
    by (simp_all add: ls_ReviveServer_def ls_KillServer_def)
  show "heartbeat_loop (map (\<lambda>(sts, bws). (snd (ls_KillServer s), sts, bws)) dead @ rounds) nodeId =
     heartbeat_loop rounds nodeId"
    by (induction dead) (auto simp: heartbeat_round_dead[OF killed])
qed (simp_all add: heartbeat_round_alive ls_ReviveServer_def)

end
