(* ===== verification/Global_Scheduler.thy ===== *)
theory Global_Scheduler
  imports BR_Messages BR_Net
begin

text \<open>
  The global scheduler (\<open>src/go/cmd/globalscheduler/main.go\<close>): it keeps the last heartbeat of
  every node, tells the GCS which nodes are alive, and gives a task to the live node where it is
  expected to wait least.
\<close>

section \<open>State\<close>

text \<open>Times are nanoseconds of the monotonic clock.\<close>

record HeartbeatEntry =
  timeReceived :: int
  he_numRunningTasks :: u32
  he_numQueuedTasks :: u32
  he_avgRunningTime :: f32
  he_avgBandwidth :: f32

record gs_server =
  gs_status :: "u64 \<rightharpoonup> HeartbeatEntry"

definition LIVE_NODE_TIMEOUT :: int where
  "LIVE_NODE_TIMEOUT = 400000000"

definition gs_MAX_CONCURRENT_TASKS :: u32 where
  "gs_MAX_CONCURRENT_TASKS = 10"

datatype gs_call =
    GCallRegisterLiveNodes LiveNodesRequest
  | GCallGetObjectLocations ObjectLocationsRequest
  | GCallRegisterGenerating GeneratingRequest
  | GCallRun string RunRequest

section \<open>Heartbeats\<close>

definition Heartbeat :: "int \<Rightarrow> HeartbeatRequest \<Rightarrow> gs_server \<Rightarrow> StatusResponse ret \<times> gs_server" where
  "Heartbeat now req s =
     (let numQueuedTasks =
            (if hb_RunningTasks req = gs_MAX_CONCURRENT_TASKS then hb_QueuedTasks req + 1
             else hb_QueuedTasks req)
      in ((Some (status True), None),
          s\<lparr>gs_status := (gs_status s)(hb_NodeId req \<mapsto>
               \<lparr>timeReceived = now, he_numRunningTasks = hb_RunningTasks req,
                he_numQueuedTasks = numQueuedTasks, he_avgRunningTime = hb_AvgRunningTime req,
                he_avgBandwidth = hb_AvgBandwidth req\<rparr>)\<rparr>))"

definition live :: "int \<Rightarrow> HeartbeatEntry \<Rightarrow> bool" where
  "live now h \<longleftrightarrow> now - timeReceived h < LIVE_NODE_TIMEOUT"

text \<open>
  \<open>SendLiveNodes\<close>: the loop visits the nodes in the order \<open>ks\<close>; \<open>now\<close> is the clock when a
  node is visited. The answer of the GCS is ignored.
\<close>

definition SendLiveNodes :: "(u64 \<Rightarrow> int) \<Rightarrow> u64 list \<Rightarrow> gs_server \<Rightarrow> gs_call list" where
  "SendLiveNodes now ks s =
     (let liveNodes = foldl (\<lambda>m k. m(k \<mapsto> live (now k) (the (gs_status s k)))) Map.empty ks
      in [GCallRegisterLiveNodes \<lparr>ln_LiveNodes = liveNodes\<rparr>])"

text \<open>
  \<open>LiveNodesHeartbeat\<close> repeats it for ever: the calls of as many rounds as there are moments, each with
  the clock, the visiting order and the server as they are then, and the milliseconds it sleeps.
\<close>

definition gs_HEARTBEAT_WAIT :: nat where
  "gs_HEARTBEAT_WAIT = 100"

definition LiveNodesHeartbeat :: "((u64 \<Rightarrow> int) \<times> u64 list \<times> gs_server) list \<Rightarrow> (gs_call list \<times> nat) list" where
  "LiveNodesHeartbeat rounds = map (\<lambda>(now, ks, s). (SendLiveNodes now ks s, gs_HEARTBEAT_WAIT)) rounds"

section \<open>Choosing a node\<close>

text \<open>
  The loop over the shuffled keys that both branches share: \<open>cost\<close> is the waiting time of a
  node, \<open>None\<close> for a node that is skipped.
\<close>

fun scan :: "(u64 \<Rightarrow> f32 option) \<Rightarrow> u64 list \<Rightarrow> u64 \<times> f32 \<times> bool \<Rightarrow> u64 \<times> f32 \<times> bool" where
  "scan cost [] best = best"
| "scan cost (k # ks) (minId, minTime, foundBest) =
     (case cost k of
        None \<Rightarrow> scan cost ks (minId, minTime, foundBest)
      | Some waitingTime \<Rightarrow>
          if fl_lt waitingTime minTime then scan cost ks (k, waitingTime, True)
          else scan cost ks (minId, minTime, foundBest))"

definition queueingTime :: "HeartbeatEntry \<Rightarrow> f32" where
  "queueingTime h = f32_mul (fl_of_int binary32 (uint (he_numQueuedTasks h))) (he_avgRunningTime h)"

definition queue_cost :: "(u64 \<Rightarrow> int) \<Rightarrow> gs_server \<Rightarrow> u64 \<Rightarrow> f32 option" where
  "queue_cost now s nid =
     (case gs_status s nid of
        None \<Rightarrow> None
      | Some heartbeat \<Rightarrow> if \<not> live (now nid) heartbeat then None else Some (queueingTime heartbeat))"

text \<open>
  The locality branch: bytes per node and in total, from the locations the GCS reports
  (\<open>os\<close> is the order in which the objects are visited), with the wrap-around of \<open>uint64\<close>.
\<close>

fun add_locations :: "u64 \<Rightarrow> u64 list \<Rightarrow> (u64 \<rightharpoonup> u64) \<times> u64 \<Rightarrow> (u64 \<rightharpoonup> u64) \<times> u64" where
  "add_locations bs [] acc = acc"
| "add_locations bs (loc # locs) (m, totalBytes) =
     add_locations bs locs (m(loc \<mapsto> lookup_u64 m loc + bs), totalBytes + bs)"

fun add_objects ::
  "(u64 \<rightharpoonup> LocationByteTuple) \<Rightarrow> u64 list \<Rightarrow> (u64 \<rightharpoonup> u64) \<times> u64 \<Rightarrow> (u64 \<rightharpoonup> u64) \<times> u64" where
  "add_objects resp [] acc = acc"
| "add_objects resp (u # us) acc =
     (case resp u of
        None \<Rightarrow> add_objects resp us acc
      | Some val \<Rightarrow> add_objects resp us (add_locations (Bytes val) (Locations val) acc))"

definition locationToBytes ::
  "(u64 \<rightharpoonup> LocationByteTuple) \<Rightarrow> u64 list \<Rightarrow> gs_server \<Rightarrow> (u64 \<rightharpoonup> u64) \<times> u64" where
  "locationToBytes resp us s = add_objects resp us ((\<lambda>nid. map_option (\<lambda>_. 0) (gs_status s nid)), 0)"

definition transferTime :: "u64 \<Rightarrow> u64 \<Rightarrow> HeartbeatEntry \<Rightarrow> f32" where
  "transferTime totalBytes bytes h =
     f32_div (fl_of_int binary32 (uint (totalBytes - bytes))) (he_avgBandwidth h)"

text \<open>
  This branch holds the lock only while it reads the numbers of one node, and tests the node's age
  without it: \<open>seen\<close> gives the server as it is at these two moments. Reading a node that is not there yields
  zeros.
\<close>

definition zero_entry :: HeartbeatEntry where
  "zero_entry = \<lparr>timeReceived = 0, he_numRunningTasks = 0, he_numQueuedTasks = 0,
     he_avgRunningTime = Zero False, he_avgBandwidth = Zero False\<rparr>"

definition status_of :: "gs_server \<Rightarrow> u64 \<Rightarrow> HeartbeatEntry" where
  "status_of s loc = (case gs_status s loc of None \<Rightarrow> zero_entry | Some h \<Rightarrow> h)"

definition locality_cost ::
  "(u64 \<Rightarrow> int) \<Rightarrow> (u64 \<rightharpoonup> u64) \<times> u64 \<Rightarrow> (u64 \<Rightarrow> gs_server \<times> gs_server) \<Rightarrow> u64 \<Rightarrow> f32 option" where
  "locality_cost now acc seen loc =
     (case gs_status (fst (seen loc)) loc of
        None \<Rightarrow> None
      | Some heartbeat \<Rightarrow>
          if \<not> live (now loc) heartbeat then None
          else (let st = status_of (snd (seen loc)) loc in
                Some (f32_add (queueingTime st) (transferTime (snd acc) (lookup_u64 (fst acc) loc) st))))"

text \<open>
  \<open>getBestWorker\<close>: \<open>keys\<close> are the shuffled node ids, \<open>answer\<close> what the GCS says about the
  objects' locations (with the order \<open>us\<close> of visiting them), if it is asked; \<open>s\<close> is the server when
  the keys are collected. The branch without locality holds the lock throughout.
\<close>

definition node_cost ::
  "(u64 \<Rightarrow> int) \<Rightarrow> (u64 \<rightharpoonup> LocationByteTuple) \<Rightarrow> u64 list \<Rightarrow> bool \<Rightarrow> gs_server \<Rightarrow>
     (u64 \<Rightarrow> gs_server \<times> gs_server) \<Rightarrow> u64 \<Rightarrow> f32 option" where
  "node_cost now resp us locality s seen =
     (if locality then locality_cost now (locationToBytes resp us s) seen else queue_cost now s)"

definition pick :: "(u64 \<Rightarrow> f32 option) \<Rightarrow> u64 list \<Rightarrow> u64 outcome" where
  "pick cost keys =
     (case scan cost keys (0, MaxFloat32, False) of
        (minId, minTime, foundBest) \<Rightarrow>
          if \<not> foundBest then Fatal ''global scheduler failed to pick a worker'' else Return minId)"

definition getBestWorker ::
  "(u64 \<Rightarrow> int) \<Rightarrow> u64 list \<Rightarrow> ObjectLocationsResponse rpc \<Rightarrow> u64 list \<Rightarrow> bool \<Rightarrow> u64 list \<Rightarrow> gs_server \<Rightarrow>
     (u64 \<Rightarrow> gs_server \<times> gs_server) \<Rightarrow> u64 outcome \<times> gs_call list" where
  "getBestWorker now keys answer us localityFlag uids s seen =
     (if localityFlag \<and> uids \<noteq> [] then
        (case answer of
           Inl e \<Rightarrow> (Fatal (''Failed to ask gcs for object locations: '' @ err_text e),
                     [GCallGetObjectLocations \<lparr>ol_Args = uids\<rparr>])
         | Inr locationsResp \<Rightarrow>
             (pick (node_cost now (olresp_Locations locationsResp) us True s seen) keys,
              [GCallGetObjectLocations \<lparr>ol_Args = uids\<rparr>]))
      else (pick (node_cost now Map.empty [] False s seen) keys, []))"

section \<open>Scheduling\<close>

text \<open>
  \<open>Schedule\<close>: \<open>best\<close> is what \<open>getBestWorker\<close> yields, \<open>dialErr\<close> the error of dialling the worker, \<open>result\<close> the
  answer of its \<open>Run\<close>.
\<close>

definition contact_failure :: "u64 \<Rightarrow> go_error option \<Rightarrow> string" where
  "contact_failure node_id err =
     ''global scheduler failed to contact node '' @ FormatUint node_id @ ''. Err: '' @ errv err"

definition gs_Schedule ::
  "string \<Rightarrow> int \<Rightarrow> u64 outcome \<times> gs_call list \<Rightarrow> go_error option \<Rightarrow> StatusResponse rpc \<Rightarrow>
     GlobalScheduleRequest \<Rightarrow> StatusResponse ret outcome \<times> gs_call list" where
  "gs_Schedule prefix port best dialErr result req =
     (let (node, calls) = (if gs_NodeId req = 0 then best else (Return (gs_NodeId req), [])) in
      case node of
        Fatal msg \<Rightarrow> (Fatal msg, calls)
      | Goexit \<Rightarrow> (Goexit, calls)
      | Return node_id \<Rightarrow>
          (case dialErr of
             Some e \<Rightarrow> (Return (None, Some e), calls)
           | None \<Rightarrow>
               (let workerAddress = node_address prefix (uint node_id) port;
                    calls' = calls @
                      [GCallRegisterGenerating \<lparr>gen_Uid = gs_Uid req, gen_NodeId = node_id\<rparr>,
                       GCallRun workerAddress
                         \<lparr>run_Uid = gs_Uid req, run_Name = gs_Name req, run_Args = gs_Args req,
                          run_Kwargs = gs_Kwargs req\<rparr>]
                in case result of
                     Inr output_result \<Rightarrow>
                       if Success output_result then (Return (Some (status True), None), calls')
                       else (Fatal (contact_failure node_id None), calls')
                   | Inl e \<Rightarrow> (Fatal (contact_failure node_id (Some e)), calls'))))"

end
