(* ===== verification/Global_Scheduler_Props.thy ===== *)
theory Global_Scheduler_Props
  imports Global_Scheduler
begin

text \<open>
  The global scheduler picks a live node whose expected waiting time no other live node beats, for
  every order in which the nodes are visited; it fails exactly when there is none. The bytes it
  counts per node are examined as well.
\<close>

section \<open>The loop\<close>

text \<open>One turn of the loop: the node is passed over, or it becomes the best so far.\<close>

lemma scan_cases:
  obtains (skip) "scan cost (k # ks) (m0, t0, f0) = scan cost ks (m0, t0, f0)"
      "\<And>c. cost k = Some c \<Longrightarrow> \<not> fl_lt c t0"
  | (better) c where "scan cost (k # ks) (m0, t0, f0) = scan cost ks (k, c, True)"
      "cost k = Some c" "fl_lt c t0" "c \<noteq> NaN"
proof (cases "\<exists>c. cost k = Some c \<and> fl_lt c t0")
  case True
  then obtain c where c: "cost k = Some c" "fl_lt c t0" by blast
  then show ?thesis by (intro better[of c]) (auto dest: fl_lt_not_NaN)
next
  case False
  then show ?thesis by (intro skip) (auto split: option.split)
qed

lemma scan_origin:
  assumes "scan cost ks (m0, t0, f0) = (m, t, f)" "t0 \<noteq> NaN"
  shows "(m, t, f) = (m0, t0, f0) \<or> (f \<and> m \<in> set ks \<and> cost m = Some t \<and> fl_lt t t0)"
  using assms
proof (induction ks arbitrary: m0 t0 f0)
  case (Cons k ks)
  show ?case
  proof (cases rule: scan_cases[of cost k ks m0 t0 f0])
    case skip
    with Cons.prems Cons.IH[of m0 t0 f0] show ?thesis by auto
  next
    case (better c)
    with Cons.prems Cons.IH[of k c True] show ?thesis using fl_lt_trans[of t c t0] by auto
  qed
qed simp

lemma scan_monotone:
  assumes "scan cost ks (m0, t0, f0) = (m, t, f)" "t0 \<noteq> NaN"
  shows "\<not> fl_lt t0 t"
  using scan_origin[OF assms] fl_lt_trans[of t0 t t0] fl_lt_irrefl by auto

lemma scan_least:
  assumes "scan cost ks (m0, t0, f0) = (m, t, f)" "t0 \<noteq> NaN" "k \<in> set ks" "cost k = Some c"
  shows "\<not> fl_lt c t"
  using assms
proof (induction ks arbitrary: m0 t0 f0)
  case (Cons j ks)
  show ?case
  proof (cases rule: scan_cases[of cost j ks m0 t0 f0])
    case skip
    with Cons.prems(1) have s: "scan cost ks (m0, t0, f0) = (m, t, f)" by simp
    show ?thesis
    proof (cases "k = j")
      case True
      with skip(2) Cons.prems(4) have "\<not> fl_lt c t0" by simp
      then show ?thesis using scan_monotone[OF s Cons.prems(2)] fl_lt_neg_trans[OF Cons.prems(2)] by blast
    qed (use Cons.IH[OF s] Cons.prems in simp)
  next
    case (better d)
    with Cons.prems(1) have s: "scan cost ks (j, d, True) = (m, t, f)" by simp
    with scan_monotone[OF s better(4)] Cons.IH[OF s better(4)] Cons.prems(3,4) better(2) show ?thesis by auto
  qed
qed simp

lemma MaxFloat32_not_NaN [simp]: "MaxFloat32 \<noteq> NaN"
  by (simp add: MaxFloat32_def)

text \<open>A node that may be chosen: it has a cost, and the cost is below the largest \<open>float32\<close>.\<close>

definition eligible :: "(u64 \<Rightarrow> f32 option) \<Rightarrow> u64 \<Rightarrow> bool" where
  "eligible cost k \<longleftrightarrow> (\<exists>c. cost k = Some c \<and> fl_lt c MaxFloat32)"

lemma pick_Return:
  assumes "pick cost keys = Return k"
  shows "k \<in> set keys" "eligible cost k"
    and "\<And>j c d. j \<in> set keys \<Longrightarrow> cost j = Some c \<Longrightarrow> cost k = Some d \<Longrightarrow> \<not> fl_lt c d"
proof -
  obtain t f where s: "scan cost keys (0, MaxFloat32, False) = (k, t, f)" "f"
    using assms by (auto simp: pick_def split: prod.splits if_splits)
  from scan_origin[OF s(1)] s(2) have k: "k \<in> set keys" "cost k = Some t" "fl_lt t MaxFloat32" by auto
  then show "k \<in> set keys" "eligible cost k" by (auto simp: eligible_def)
  show "\<And>j c d. j \<in> set keys \<Longrightarrow> cost j = Some c \<Longrightarrow> cost k = Some d \<Longrightarrow> \<not> fl_lt c d"
    using scan_least[OF s(1)] k by auto
qed

lemma pick_Fatal: "(\<exists>msg. pick cost keys = Fatal msg) \<longleftrightarrow> (\<forall>k \<in> set keys. \<not> eligible cost k)"
proof -
  obtain m t f where s: "scan cost keys (0, MaxFloat32, False) = (m, t, f)" by (metis prod_cases3)
  show ?thesis
  proof (cases f)
    case True
    with scan_origin[OF s] have "m \<in> set keys" "eligible cost m" by (auto simp: eligible_def)
    with True s show ?thesis by (auto simp: pick_def)
  next
    case False
    with scan_origin[OF s] have "t = MaxFloat32" by auto
    with scan_least[OF s] False s show ?thesis by (auto simp: pick_def eligible_def)
  qed
qed

section \<open>The choice\<close>

text \<open>The locations the GCS reported.\<close>

definition reported :: "ObjectLocationsResponse rpc \<Rightarrow> (u64 \<rightharpoonup> LocationByteTuple)" where
  "reported answer = (case answer of Inl _ \<Rightarrow> Map.empty | Inr r \<Rightarrow> olresp_Locations r)"

abbreviation cost_of ::
  "(u64 \<Rightarrow> int) \<Rightarrow> ObjectLocationsResponse rpc \<Rightarrow> u64 list \<Rightarrow> bool \<Rightarrow> u64 list \<Rightarrow> gs_server \<Rightarrow>
     (u64 \<Rightarrow> gs_server \<times> gs_server) \<Rightarrow> u64 \<Rightarrow> f32 option" where
  "cost_of now answer us flag uids s seen \<equiv> node_cost now (reported answer) us (flag \<and> uids \<noteq> []) s seen"

text \<open>The server when a node's age is tested.\<close>

abbreviation tested :: "bool \<Rightarrow> gs_server \<Rightarrow> (u64 \<Rightarrow> gs_server \<times> gs_server) \<Rightarrow> u64 \<Rightarrow> gs_server" where
  "tested locality s seen k \<equiv> (if locality then fst (seen k) else s)"

lemma node_cost_live:
  "node_cost now resp us b s seen k = Some c \<Longrightarrow> \<exists>h. gs_status (tested b s seen k) k = Some h \<and> live (now k) h"
  by (auto simp: node_cost_def queue_cost_def locality_cost_def split: option.splits if_splits)

lemma getBestWorker_pick:
  "fst (getBestWorker now keys answer us flag uids s seen) = Return k \<Longrightarrow>
     pick (cost_of now answer us flag uids s seen) keys = Return k"
  by (auto simp: getBestWorker_def reported_def node_cost_def split: sum.splits if_splits)

lemma getBestWorker_live:
  "fst (getBestWorker now keys answer us flag uids s seen) = Return k \<Longrightarrow>
     \<exists>h. gs_status (tested (flag \<and> uids \<noteq> []) s seen k) k = Some h \<and> live (now k) h"
  using pick_Return(2)[OF getBestWorker_pick] node_cost_live by (fastforce simp: eligible_def)

text \<open>C11 The node \<open>getBestWorker\<close> picks is a known node whose last heartbeat is less than 400 ms
  old when it is looked at, and no known node was looked at and found alive with a smaller expected waiting
  time, with or without locality, however the keys were shuffled and whatever heartbeats arrive while
  the locality branch goes through the nodes.\<close>

theorem getBestWorker_minimal:
  assumes "map_order keys (gs_status s)"
    and "fst (getBestWorker now keys answer us flag uids s seen) = Return k"
  shows "k \<in> dom (gs_status s) \<and> (\<exists>h d. gs_status (tested (flag \<and> uids \<noteq> []) s seen k) k = Some h \<and>
    now k - timeReceived h < 400000000 \<and> cost_of now answer us flag uids s seen k = Some d \<and>
    (\<forall>j \<in> dom (gs_status s). \<forall>c. cost_of now answer us flag uids s seen j = Some c \<longrightarrow> \<not> fl_lt c d))"
proof -
  note p = getBestWorker_pick[OF assms(2)]
  then obtain d where d: "cost_of now answer us flag uids s seen k = Some d"
    using pick_Return(2)[OF p] by (auto simp: eligible_def)
  then obtain h where h: "gs_status (tested (flag \<and> uids \<noteq> []) s seen k) k = Some h" "live (now k) h"
    using node_cost_live by blast
  have "\<not> fl_lt c d" if "j \<in> dom (gs_status s)" "cost_of now answer us flag uids s seen j = Some c" for j c
    using pick_Return(3)[OF p _ that(2) d] that(1) assms(1) by (simp add: map_order_def)
  with d h pick_Return(1)[OF p] assms(1) show ?thesis
    by (auto simp: live_def LIVE_NODE_TIMEOUT_def map_order_def)
qed

abbreviation node_entry :: "int \<Rightarrow> u32 \<Rightarrow> HeartbeatEntry" where
  "node_entry t q \<equiv> \<lparr>timeReceived = t, he_numRunningTasks = 1, he_numQueuedTasks = q,
     he_avgRunningTime = f32_const 1, he_avgBandwidth = f32_const (1 / 10)\<rparr>"

definition three_nodes :: gs_server where
  "three_nodes = \<lparr>gs_status = [1 \<mapsto> node_entry 0 3, 2 \<mapsto> node_entry 0 2, 3 \<mapsto> node_entry (- 500000000) 0]\<rparr>"

lemma three_nodes_pick:
  "fst (getBestWorker (\<lambda>_. 0) [3, 1, 2] (Inl (PlainError [])) [] False [] three_nodes (\<lambda>_. (three_nodes, three_nodes))) = Return 2"
  by code_simp

theorem getBestWorker_minimal_witness:
  "\<exists>d c. cost_of (\<lambda>_. 0) (Inl (PlainError [])) [] False [] three_nodes (\<lambda>_. (three_nodes, three_nodes)) 2 = Some d \<and>
     cost_of (\<lambda>_. 0) (Inl (PlainError [])) [] False [] three_nodes (\<lambda>_. (three_nodes, three_nodes)) 1 = Some c \<and>
     \<not> fl_lt c d"
proof -
  let ?cost = "cost_of (\<lambda>_. 0) (Inl (PlainError [])) [] False [] three_nodes (\<lambda>_. (three_nodes, three_nodes))"
  have o: "map_order [3, 1, 2] (gs_status three_nodes)" by (auto simp: map_order_def three_nodes_def)
  obtain c where c: "?cost 1 = Some c"
    by (simp add: node_cost_def queue_cost_def three_nodes_def live_def LIVE_NODE_TIMEOUT_def)
  have one: "1 \<in> dom (gs_status three_nodes)" by (simp add: three_nodes_def)
  from getBestWorker_minimal[OF o three_nodes_pick] c one show ?thesis by blast
qed

section \<open>There is a choice\<close>

text \<open>
  Numbers as the workers and stores report them: an average between zero and \<open>2 ^ 34\<close> seconds, and
  the bandwidth every store starts with and keeps.
\<close>

definition sane :: "HeartbeatEntry \<Rightarrow> bool" where
  "sane h \<longleftrightarrow> fl_upto (2 ^ 34) (he_avgRunningTime h) \<and> he_avgBandwidth h = Fin (13421773 / 134217728)"

lemma pow2_numeral [simp]: "pow2 (numeral k) = 2 ^ numeral k" "pow2 0 = 1"
  by (simp_all add: pow2_def)

lemma of_int_upto:
  assumes "0 \<le> n" "n \<le> 2 ^ k" "k \<le> 100"
  shows "fl_upto (2 ^ k) (fl_of_int binary32 n)"
proof -
  have "rat_of_int n \<le> of_int (2 ^ k)" using assms(2) by (simp only: of_int_le_iff)
  then have "fl_upto (of_int 1 * pow2 (int k)) (rnd binary32 False (of_int n))"
    using assms by (intro rnd_upto) (simp_all add: repr32 pow2_def)
  then show ?thesis by (simp add: fl_of_int_def pow2_def)
qed

lemma queueingTime_upto:
  assumes "fl_upto (2 ^ 34) (he_avgRunningTime h)"
  shows "fl_upto (2 ^ 66) (queueingTime h)"
proof -
  have n: "fl_upto (2 ^ 32) (fl_of_int binary32 (uint (he_numQueuedTasks h)))"
    using uint_lt2p[of "he_numQueuedTasks h"] by (intro of_int_upto) simp_all
  have "fin_val (fl_of_int binary32 (uint (he_numQueuedTasks h))) * fin_val (he_avgRunningTime h) \<le> 2 ^ 32 * 2 ^ 34"
    using upto_fin_val[OF n] upto_fin_val[OF assms] by (intro mult_mono) simp_all
  then have "fl_upto (of_int 1 * pow2 66) (queueingTime h)"
    unfolding queueingTime_def by (intro fl_mul_upto[OF n assms]) (simp_all add: repr32)
  then show ?thesis by simp
qed

lemma transferTime_upto:
  assumes "he_avgBandwidth h = Fin (13421773 / 134217728)"
  shows "fl_upto (2 ^ 68) (transferTime tot bs h)"
proof -
  have n: "fl_upto (2 ^ 64) (fl_of_int binary32 (uint (tot - bs)))"
    using uint_lt2p[of "tot - bs"] by (intro of_int_upto) simp_all
  then have "fl_upto (of_int 1 * pow2 68) (transferTime tot bs h)"
    unfolding transferTime_def using assms upto_fin_val[OF n]
    by (intro fl_div_upto[OF n assms]) (simp_all add: repr32)
  then show ?thesis by simp
qed

lemma upto_eligible: "fl_upto (2 ^ 69) c \<Longrightarrow> fl_lt c MaxFloat32"
  by (cases c) (auto simp: fl_upto_def MaxFloat32_def fin_val_def)

text \<open>The numbers that count for a node.\<close>

abbreviation numbers :: "bool \<Rightarrow> gs_server \<Rightarrow> (u64 \<Rightarrow> gs_server \<times> gs_server) \<Rightarrow> u64 \<Rightarrow> gs_server" where
  "numbers locality s seen k \<equiv> (if locality then snd (seen k) else s)"

lemma sane_cost:
  assumes "gs_status (tested b s seen k) k = Some h0" "live (now k) h0"
    and "gs_status (numbers b s seen k) k = Some h" "sane h"
  shows "eligible (node_cost now resp us b s seen) k"
proof -
  have q: "fl_upto (2 ^ 66) (queueingTime h)" using assms(4) queueingTime_upto by (simp add: sane_def)
  have t: "fl_upto (2 ^ 68) (transferTime tot bs h)" for tot bs
    using assms(4) transferTime_upto by (simp add: sane_def)
  have "fl_upto (of_int 1 * pow2 69) (f32_add (queueingTime h) (transferTime tot bs h))" for tot bs
    using upto_fin_val[OF q] upto_fin_val[OF t[of tot bs]]
    by (intro fl_add_upto[OF q t]) (simp_all add: repr32)
  then have "fl_upto (2 ^ 69) (f32_add (queueingTime h) (transferTime tot bs h))" for tot bs by simp
  moreover have "fl_upto (2 ^ 69) (queueingTime h)" using q by (rule upto_mono) simp
  ultimately show ?thesis
    using assms upto_eligible
    by (auto simp: eligible_def node_cost_def queue_cost_def locality_cost_def status_of_def Let_def split: if_splits)
qed

lemma getBestWorker_Return:
  assumes "map_order keys (gs_status s)" "k \<in> dom (gs_status s)"
    and "gs_status (tested (flag \<and> uids \<noteq> []) s seen k) k = Some h0" "live (now k) h0"
    and "gs_status (numbers (flag \<and> uids \<noteq> []) s seen k) k = Some h" "sane h"
    and "flag \<and> uids \<noteq> [] \<Longrightarrow> \<exists>resp. answer = Inr resp"
  shows "\<exists>j. fst (getBestWorker now keys answer us flag uids s seen) = Return j"
proof -
  have "k \<in> set keys" using assms(1,2) by (auto simp: map_order_def)
  moreover have "eligible (cost_of now answer us flag uids s seen) k"
    by (rule sane_cost) fact+
  ultimately have "\<not> (\<exists>msg. pick (cost_of now answer us flag uids s seen) keys = Fatal msg)"
    unfolding pick_Fatal by blast
  moreover have "pick c ks \<noteq> Goexit" for c ks by (auto simp: pick_def split: prod.splits)
  ultimately obtain j where "pick (cost_of now answer us flag uids s seen) keys = Return j"
    by (metis outcome.exhaust)
  then show ?thesis using assms(7)
    by (auto simp: getBestWorker_def reported_def node_cost_def split: sum.splits)
qed

text \<open>\<open>getBestWorker\<close> ends the process only for lack of a live node or of an answer from the GCS:
  with one known node whose heartbeat is recent when it is looked at and whose numbers are as workers report
  them, it returns a node; no overflow, infinity or NaN in the estimate can prevent it.\<close>

theorem getBestWorker_finds:
  assumes "map_order keys (gs_status s)" "k \<in> dom (gs_status s)"
    and "gs_status (tested (flag \<and> uids \<noteq> []) s seen k) k = Some h0" "now k - timeReceived h0 < 400000000"
    and "gs_status (numbers (flag \<and> uids \<noteq> []) s seen k) k = Some h" "sane h"
    and "flag \<and> uids \<noteq> [] \<longrightarrow> answer = Inr resp"
  shows "\<exists>j. fst (getBestWorker now keys answer us flag uids s seen) = Return j"
  using assms getBestWorker_Return[of keys s k flag uids seen h0 now h answer us]
  by (auto simp: live_def LIVE_NODE_TIMEOUT_def)

lemma three_nodes_sane: "sane (node_entry 0 2)"
proof -
  have "f32_const 1 = Fin 1" "f32_const (1 / 10) = Fin (13421773 / 134217728)" by code_simp+
  then show ?thesis by (simp add: sane_def fl_upto_def)
qed

theorem getBestWorker_finds_witness:
  "\<exists>j. fst (getBestWorker (\<lambda>_. 0) [3, 1, 2] (Inl (PlainError [])) [] False [] three_nodes (\<lambda>_. (three_nodes, three_nodes))) = Return j"
proof (rule getBestWorker_finds)
  show "map_order [3, 1, 2] (gs_status three_nodes)" by (auto simp: map_order_def three_nodes_def)
  show "2 \<in> dom (gs_status three_nodes)" by (simp add: three_nodes_def)
  show "sane (node_entry 0 2)" by (rule three_nodes_sane)
  show "gs_status (tested (False \<and> [] \<noteq> []) three_nodes (\<lambda>_. (three_nodes, three_nodes)) 2) 2 = Some (node_entry 0 2)"
    "gs_status (numbers (False \<and> [] \<noteq> []) three_nodes (\<lambda>_. (three_nodes, three_nodes)) 2) 2 = Some (node_entry 0 2)"
    by (simp_all add: three_nodes_def)
qed simp_all

section \<open>Live nodes\<close>

lemma foldl_live:
  "distinct ks \<Longrightarrow> foldl (\<lambda>m k. m(k \<mapsto> f k)) m0 ks = (\<lambda>k. if k \<in> set ks then Some (f k) else m0 k)"
  by (induction ks arbitrary: m0) (auto simp: fun_eq_iff)

lemma SendLiveNodes_map:
  assumes "map_order ks (gs_status s)"
  shows "SendLiveNodes now ks s =
    [GCallRegisterLiveNodes \<lparr>ln_LiveNodes = (\<lambda>k. map_option (live (now k)) (gs_status s k))\<rparr>]"
proof -
  have "distinct ks" "set ks = dom (gs_status s)" using assms by (auto simp: map_order_def)
  moreover from this have "(\<lambda>k. if k \<in> set ks then Some (live (now k) (the (gs_status s k))) else None) =
      (\<lambda>k. map_option (live (now k)) (gs_status s k))"
    by (auto simp: fun_eq_iff domIff)
  ultimately show ?thesis
    using foldl_live[of ks "\<lambda>k. live (now k) (the (gs_status s k))" Map.empty]
    by (simp add: SendLiveNodes_def)
qed

text \<open>The GCS is told about every node that ever sent a heartbeat and about no other, whatever
  the order of the loop: a node is reported alive exactly while its latest heartbeat is less than
  400 ms old, and dead afterwards.\<close>

theorem SendLiveNodes_reports:
  assumes "map_order ks (gs_status (snd (Heartbeat t req s)))"
  shows "\<exists>m. SendLiveNodes now ks (snd (Heartbeat t req s)) = [GCallRegisterLiveNodes \<lparr>ln_LiveNodes = m\<rparr>] \<and>
    m (hb_NodeId req) = Some (now (hb_NodeId req) - t < 400000000) \<and>
    (\<forall>k. k \<noteq> hb_NodeId req \<longrightarrow>
       m k = map_option (\<lambda>h. now k - timeReceived h < 400000000) (gs_status s k))"
  unfolding SendLiveNodes_map[OF assms]
  by (auto simp: Heartbeat_def Let_def live_def[abs_def] LIVE_NODE_TIMEOUT_def)

theorem SendLiveNodes_reports_witness:
  "\<exists>m. SendLiveNodes (\<lambda>_. 100000000) [3, 1, 4, 2]
      (snd (Heartbeat 50000000 \<lparr>hb_RunningTasks = 0, hb_QueuedTasks = 0, hb_AvgRunningTime = Zero False,
         hb_AvgBandwidth = Zero False, hb_NodeId = 4\<rparr> three_nodes)) =
      [GCallRegisterLiveNodes \<lparr>ln_LiveNodes = m\<rparr>] \<and> m 4 = Some True \<and> m 3 = Some False \<and> m 5 = None"
proof -
  let ?req = "\<lparr>hb_RunningTasks = 0, hb_QueuedTasks = 0, hb_AvgRunningTime = Zero False,
         hb_AvgBandwidth = Zero False, hb_NodeId = 4\<rparr>"
  have "map_order [3, 1, 4, 2] (gs_status (snd (Heartbeat 50000000 ?req three_nodes)))"
    by (auto simp: map_order_def three_nodes_def Heartbeat_def Let_def)
  from SendLiveNodes_reports[OF this, of "\<lambda>_. 100000000"] show ?thesis
    by (auto simp: three_nodes_def)
qed

section \<open>Counting bytes\<close>

lemma add_locations_spec:
  "add_locations bs locs (m, tot) =
     (m', tot') \<Longrightarrow> tot' = tot + bs * of_nat (length locs) \<and>
       lookup_u64 m' k = lookup_u64 m k + bs * of_nat (count_list locs k)"
proof (induction locs arbitrary: m tot)
  case (Cons a locs)
  from Cons.prems have "add_locations bs locs (m(a \<mapsto> lookup_u64 m a + bs), tot + bs) = (m', tot')" by simp
  from Cons.IH[OF this] show ?case by (simp add: lookup_u64_def algebra_simps)
qed simp

text \<open>Bytes of one object at \<open>k\<close>, and at all its locations.\<close>

definition bytes_at :: "(u64 \<rightharpoonup> LocationByteTuple) \<Rightarrow> u64 \<Rightarrow> u64 \<Rightarrow> u64" where
  "bytes_at resp k u =
     (case resp u of None \<Rightarrow> 0 | Some v \<Rightarrow> Bytes v * of_nat (count_list (Locations v) k))"

definition bytes_all :: "(u64 \<rightharpoonup> LocationByteTuple) \<Rightarrow> u64 \<Rightarrow> u64" where
  "bytes_all resp u = (case resp u of None \<Rightarrow> 0 | Some v \<Rightarrow> Bytes v * of_nat (length (Locations v)))"

lemma add_objects_spec:
  "snd (add_objects resp us acc) = snd acc + sum_list (map (bytes_all resp) us) \<and>
   lookup_u64 (fst (add_objects resp us acc)) k = lookup_u64 (fst acc) k + sum_list (map (bytes_at resp k) us)"
proof (induction us arbitrary: acc)
  case (Cons u us)
  show ?case
  proof (cases "resp u")
    case None
    with Cons show ?thesis by (simp add: bytes_all_def bytes_at_def)
  next
    case (Some v)
    obtain m tot where acc: "acc = (m, tot)" by (cases acc)
    obtain m' tot' where a: "add_locations (Bytes v) (Locations v) (m, tot) = (m', tot')" by fastforce
    from add_locations_spec[OF a, of k] Cons[of "(m', tot')"] Some acc a show ?thesis
      by (simp add: bytes_all_def bytes_at_def algebra_simps)
  qed
qed simp

lemma length_minus_count: "length xs = count_list xs k + length (filter (\<lambda>x. x \<noteq> k) xs)"
  by (induction xs) auto

text \<open>C37 What the locality branch takes for the bytes to be moved to a node: for every object, its
  size times the number of recorded locations that are not this node, summed modulo \<open>2 ^ 64\<close>. An
  object the node already holds is charged again for every other copy of it.\<close>

theorem locality_bytes:
  assumes "map_order us resp" "locationToBytes resp us s = (m, tot)"
  shows "tot - lookup_u64 m k =
    (\<Sum>u \<in> dom resp. Bytes (the (resp u)) *
        of_nat (length (filter (\<lambda>l. l \<noteq> k) (Locations (the (resp u))))))"
proof -
  have z: "lookup_u64 (\<lambda>nid. map_option (\<lambda>_. 0) (gs_status s nid)) k = 0"
    by (simp add: lookup_u64_def split: option.split)
  have "tot - lookup_u64 m k = (\<Sum>u \<leftarrow> us. bytes_all resp u - bytes_at resp k u)"
    using add_objects_spec[of resp us "(\<lambda>nid. map_option (\<lambda>_. 0) (gs_status s nid), 0)" k] assms(2) z
    by (simp add: locationToBytes_def sum_list_subtractf)
  also have "\<dots> = (\<Sum>u \<in> dom resp. bytes_all resp u - bytes_at resp k u)"
    using assms(1) by (simp add: map_order_def sum_list_distinct_conv_sum_set)
  also have "\<dots> = (\<Sum>u \<in> dom resp. Bytes (the (resp u)) *
        of_nat (length (filter (\<lambda>l. l \<noteq> k) (Locations (the (resp u))))))"
  proof (rule sum.cong)
    fix u assume "u \<in> dom resp"
    then obtain v where v: "resp u = Some v" by blast
    have "(of_nat (length (Locations v)) :: u64) =
        of_nat (count_list (Locations v) k) + of_nat (length (filter (\<lambda>l. l \<noteq> k) (Locations v)))"
      using length_minus_count[of "Locations v" k] by (metis of_nat_add)
    then show "bytes_all resp u - bytes_at resp k u =
        Bytes (the (resp u)) * of_nat (length (filter (\<lambda>l. l \<noteq> k) (Locations (the (resp u)))))"
      using v by (simp add: bytes_all_def bytes_at_def algebra_simps)
  qed simp
  finally show ?thesis .
qed

theorem locality_bytes_witness:
  "\<exists>m tot. locationToBytes [9 \<mapsto> \<lparr>Locations = [1, 2], Bytes = 100\<rparr>] [9] three_nodes = (m, tot) \<and>
     tot - lookup_u64 m 1 = 100 \<and> tot - lookup_u64 m 3 = 200"
proof -
  obtain m tot where l: "locationToBytes [9 \<mapsto> \<lparr>Locations = [1, 2], Bytes = 100\<rparr>] [9] three_nodes = (m, tot)"
    by fastforce
  have o9: "map_order [9] [9 \<mapsto> \<lparr>Locations = [1, 2], Bytes = 100\<rparr> :: LocationByteTuple]"
    by (simp add: map_order_def)
  from locality_bytes[OF o9 l, of 1] locality_bytes[OF o9 l, of 3] l show ?thesis by simp
qed

section \<open>Running the task\<close>

text \<open>\<open>Schedule\<close> runs the task on the node the request names, or else on the node that was
  picked, and has announced that node as generating the object right before; it reports success only
  if the worker did. Any failure of the worker ends the scheduler.\<close>

theorem gs_Schedule_effects:
  assumes "gs_NodeId req \<noteq> 0 \<or> fst best = Return node" and "target = (if gs_NodeId req \<noteq> 0 then gs_NodeId req else node)"
  shows "snd (gs_Schedule prefix port best None result req) =
      (if gs_NodeId req \<noteq> 0 then [] else snd best) @
      [GCallRegisterGenerating \<lparr>gen_Uid = gs_Uid req, gen_NodeId = target\<rparr>,
       GCallRun (node_address prefix (uint target) port)
         \<lparr>run_Uid = gs_Uid req, run_Name = gs_Name req, run_Args = gs_Args req, run_Kwargs = gs_Kwargs req\<rparr>] \<and>
    fst (gs_Schedule prefix port best None result req) =
      (case result of
         Inr r \<Rightarrow> if Success r then Return (Some (status True), None) else Fatal (contact_failure target None)
       | Inl e \<Rightarrow> Fatal (contact_failure target (Some e)))"
  using assms by (cases best) (auto simp: gs_Schedule_def Let_def split: sum.split)

theorem gs_Schedule_effects_witness:
  "fst (gs_Schedule ''node'' 50002
      (getBestWorker (\<lambda>_. 0) [3, 1, 2] (Inl (PlainError [])) [] False [] three_nodes (\<lambda>_. (three_nodes, three_nodes))) None (Inr (status True))
      \<lparr>gs_Uid = 7, gs_Name = 1, gs_Args = [], gs_Kwargs = [], gs_Uids = [], gs_NewObject = True,
       gs_NodeId = 0, gs_LocalityFlag = False\<rparr>) = Return (Some (status True), None)"
  using gs_Schedule_effects[of "\<lparr>gs_Uid = 7, gs_Name = 1, gs_Args = [], gs_Kwargs = [], gs_Uids = [],
        gs_NewObject = True, gs_NodeId = 0, gs_LocalityFlag = False\<rparr>"
      "getBestWorker (\<lambda>_. 0) [3, 1, 2] (Inl (PlainError [])) [] False [] three_nodes (\<lambda>_. (three_nodes, three_nodes))" 2 2 "''node''" 50002
      "Inr (status True)"] three_nodes_pick
  by (simp add: status_def)

end
