(* ===== verification/Cluster_Config.thy ===== *)
theory Cluster_Config
  imports BR_Net BR_Float
begin

text \<open>
  Configuration and wiring: \<open>src/go/config/config.go\<close>, \<open>src/go/util/util.go\<close> and the \<open>main\<close>
  functions of the services, reduced to the address each process listens on, the services it
  dials and how it ends.
\<close>

section \<open>Configuration\<close>

record NodeIDs_config =
  id_GCS :: int
  id_GlobalScheduler :: int
  id_Ourself :: int

record Ports_config =
  port_LocalObjectStore :: int
  port_LocalScheduler :: int
  port_LocalWorkerStart :: int
  port_GCSFunctionTable :: int
  port_GCSObjectTable :: int
  port_GlobalScheduler :: int

record Config =
  NumWorkerNodes :: int
  ClusterSize :: int
  SimulatedDelay :: f32
  NodeIDs :: NodeIDs_config
  Ports :: Ports_config
  NodePrefix :: string
  FlushIntervalSec :: int
  EnableChainReplication :: bool

text \<open>
  \<open>LoadConfig\<close>: reading the file and the YAML decoder are outside; both errors end the process.
\<close>

definition LoadConfig :: "string rpc \<Rightarrow> (string \<Rightarrow> Config rpc) \<Rightarrow> Config outcome" where
  "LoadConfig yamlFile unmarshal =
     (case yamlFile of
        Inl e \<Rightarrow> Fatal (''error: '' @ err_text e)
      | Inr text \<Rightarrow>
          (case unmarshal text of
             Inl e \<Rightarrow> Fatal (''Unmarshal: '' @ err_text e)
           | Inr config \<Rightarrow> Return config))"

text \<open>
  The package variable \<open>cfg\<close>, nil before \<open>init\<close> has run, which happens before any \<open>main\<close>.
\<close>

definition config_init :: "string rpc \<Rightarrow> (string \<Rightarrow> Config rpc) \<Rightarrow> Config option \<Rightarrow> Config option outcome" where
  "config_init yamlFile unmarshal cfg =
     (case LoadConfig yamlFile unmarshal of
        Return config \<Rightarrow> Return (Some config) | Fatal msg \<Rightarrow> Fatal msg | Goexit \<Rightarrow> Goexit)"

definition GetConfig :: "Config option \<Rightarrow> Config option" where
  "GetConfig cfg = cfg"

text \<open>The values of \<open>src/config/app_config.yaml\<close>.\<close>

definition app_config :: Config where
  "app_config =
     \<lparr>NumWorkerNodes = 5, ClusterSize = 0, SimulatedDelay = Zero False,
      NodeIDs = \<lparr>id_GCS = 0, id_GlobalScheduler = 1, id_Ourself = 2\<rparr>,
      Ports = \<lparr>port_LocalObjectStore = 50000, port_LocalScheduler = 50001,
               port_LocalWorkerStart = 50002, port_GCSFunctionTable = 50000,
               port_GCSObjectTable = 50001, port_GlobalScheduler = 50000\<rparr>,
      NodePrefix = ''node'', FlushIntervalSec = 1, EnableChainReplication = True\<rparr>"

section \<open>Options and metadata\<close>

record msg_limits =
  max_recv :: nat
  max_send :: nat

definition GetDialOptions :: msg_limits where
  "GetDialOptions = \<lparr>max_recv = 1024 * 1024 * 1024, max_send = 1024 * 1024 * 1024\<rparr>"

definition GetServerOptions :: msg_limits where
  "GetServerOptions = \<lparr>max_recv = 1024 * 1024 * 1024, max_send = 1024 * 1024 * 1024\<rparr>"

text \<open>The metadata of a context, if any, maps a key to its values.\<close>

definition ExtractAddressFromCtx :: "(string \<Rightarrow> string list) option \<Rightarrow> string \<times> go_error option" where
  "ExtractAddressFromCtx md =
     (case md of
        None \<Rightarrow> ([], Some (StatusError InvalidArgument ''no metadata available in context''))
      | Some get \<Rightarrow>
          (case get ''client-address'' of
             [] \<Rightarrow> ([], Some (StatusError InvalidArgument ''client address not provided in metadata''))
           | a # _ \<Rightarrow> (a, None)))"

section \<open>Processes\<close>

text \<open>The gRPC services, by the stub that dials them or registers them.\<close>

datatype service = GCSFunc | GCSObj | GlobalSched | LocalSched | LocalObjStore | Worker

record process =
  serves :: service
  listens :: string
  dials :: "(service \<times> string) list"
  ends :: "unit outcome"

text \<open>\<open>net.Listen\<close> and \<open>Serve\<close>: an error of either ends the process.\<close>

definition serve_outcome :: "go_error option \<Rightarrow> go_error option \<Rightarrow> unit outcome" where
  "serve_outcome listenErr serveErr =
     (case listenErr of
        Some e \<Rightarrow> Fatal (''failed to listen: '' @ err_text e)
      | None \<Rightarrow> (case serveErr of Some e \<Rightarrow> Fatal (''failed to serve: '' @ err_text e) | None \<Rightarrow> Return ()))"

definition localhost :: "int \<Rightarrow> string" where
  "localhost port = ''localhost:'' @ Itoa port"

definition gcsfunctable_main :: "Config \<Rightarrow> go_error option \<Rightarrow> go_error option \<Rightarrow> process" where
  "gcsfunctable_main cfg listenErr serveErr =
     \<lparr>serves = GCSFunc, listens = listen_address (port_GCSFunctionTable (Ports cfg)), dials = [],
      ends = serve_outcome listenErr serveErr\<rparr>"

definition gcsobjtable_main :: "Config \<Rightarrow> go_error option \<Rightarrow> go_error option \<Rightarrow> process" where
  "gcsobjtable_main cfg listenErr serveErr =
     \<lparr>serves = GCSObj, listens = listen_address (port_GCSObjectTable (Ports cfg)),
      dials = [(GlobalSched, node_address (NodePrefix cfg) (id_GlobalScheduler (NodeIDs cfg))
                               (port_GlobalScheduler (Ports cfg)))],
      ends = serve_outcome listenErr serveErr\<rparr>"

definition globalscheduler_main :: "Config \<Rightarrow> go_error option \<Rightarrow> go_error option \<Rightarrow> process" where
  "globalscheduler_main cfg listenErr serveErr =
     \<lparr>serves = GlobalSched, listens = listen_address (port_GlobalScheduler (Ports cfg)),
      dials = [(GCSObj, node_address (NodePrefix cfg) (id_GCS (NodeIDs cfg)) (port_GCSObjectTable (Ports cfg)))],
      ends = serve_outcome listenErr serveErr\<rparr>"

definition localscheduler_main :: "Config \<Rightarrow> go_error option \<Rightarrow> go_error option \<Rightarrow> process" where
  "localscheduler_main cfg listenErr serveErr =
     \<lparr>serves = LocalSched, listens = listen_address (port_LocalScheduler (Ports cfg)),
      dials = [(Worker, localhost (port_LocalWorkerStart (Ports cfg))),
               (GlobalSched, node_address (NodePrefix cfg) (id_GlobalScheduler (NodeIDs cfg))
                               (port_GlobalScheduler (Ports cfg))),
               (GCSObj, node_address (NodePrefix cfg) (id_GCS (NodeIDs cfg)) (port_GCSObjectTable (Ports cfg))),
               (Worker, localhost (port_LocalWorkerStart (Ports cfg))),
               (LocalObjStore, localhost (port_LocalObjectStore (Ports cfg)))],
      ends = serve_outcome listenErr serveErr\<rparr>"

text \<open>\<open>main\<close> of the object store blocks for ever after \<open>startServer\<close>; \<open>Serve\<close> runs in a goroutine.\<close>

definition startServer :: "Config \<Rightarrow> string \<Rightarrow> go_error option \<Rightarrow> go_error option \<Rightarrow> process" where
  "startServer cfg port listenErr serveErr =
     \<lparr>serves = LocalObjStore, listens = port,
      dials = [(GCSObj, node_address (NodePrefix cfg) (id_GCS (NodeIDs cfg)) (port_GCSObjectTable (Ports cfg)))],
      ends = serve_outcome listenErr serveErr\<rparr>"

definition localobjstore_main :: "Config \<Rightarrow> go_error option \<Rightarrow> go_error option \<Rightarrow> process" where
  "localobjstore_main cfg listenErr serveErr =
     startServer cfg (listen_address (port_LocalObjectStore (Ports cfg))) listenErr serveErr"

text \<open>\<open>createGRPCClient\<close> ends the process when dialling fails.\<close>

definition createGRPCClient :: "go_error option \<Rightarrow> string \<Rightarrow> service \<Rightarrow> (service \<times> string) outcome" where
  "createGRPCClient dialErr address constructor =
     (case dialErr of
        Some e \<Rightarrow> Fatal (''failed to connect to '' @ address @ '': '' @ err_text e)
      | None \<Rightarrow> Return (constructor, address))"

definition worker_main ::
  "Config \<Rightarrow> go_error option \<Rightarrow> go_error option \<Rightarrow> go_error option \<Rightarrow> go_error option \<Rightarrow> process" where
  "worker_main cfg listenErr funcDialErr storeDialErr serveErr =
     (let start = \<lparr>serves = Worker, listens = listen_address (port_LocalWorkerStart (Ports cfg)),
                   dials = [], ends = serve_outcome listenErr None\<rparr>;
          funcServiceAddr = node_address (NodePrefix cfg) (id_GCS (NodeIDs cfg)) (port_GCSFunctionTable (Ports cfg))
      in if listenErr \<noteq> None then start
         else case createGRPCClient funcDialErr funcServiceAddr GCSFunc of
           Fatal m \<Rightarrow> start\<lparr>ends := Fatal m\<rparr>
         | Goexit \<Rightarrow> start\<lparr>ends := Goexit\<rparr>
         | Return funcClient \<Rightarrow>
             (case createGRPCClient storeDialErr ''localhost:50000'' LocalObjStore of
                Fatal m \<Rightarrow> start\<lparr>dials := [funcClient], ends := Fatal m\<rparr>
              | Goexit \<Rightarrow> start\<lparr>dials := [funcClient], ends := Goexit\<rparr>
              | Return storeClient \<Rightarrow>
                  start\<lparr>dials := [funcClient, storeClient], ends := serve_outcome None serveErr\<rparr>))"

text \<open>
  The chain conductor starts only when chain replication is on, and then serves the function table's
  service on the function table's port. Its two handlers have empty bodies.
\<close>

definition gcschainconductor_main :: "Config \<Rightarrow> go_error option \<Rightarrow> go_error option \<Rightarrow> process option" where
  "gcschainconductor_main cfg listenErr serveErr =
     (if EnableChainReplication cfg
      then Some \<lparr>serves = GCSFunc, listens = listen_address (port_GCSFunctionTable (Ports cfg)), dials = [],
                 ends = serve_outcome listenErr serveErr\<rparr>
      else None)"

section \<open>Wiring\<close>

text \<open>Where a service is expected: its port, and its node when there is one instance.\<close>

definition service_port :: "Config \<Rightarrow> service \<Rightarrow> int" where
  "service_port cfg svc =
     (case svc of
        GCSFunc \<Rightarrow> port_GCSFunctionTable (Ports cfg)
      | GCSObj \<Rightarrow> port_GCSObjectTable (Ports cfg)
      | GlobalSched \<Rightarrow> port_GlobalScheduler (Ports cfg)
      | LocalSched \<Rightarrow> port_LocalScheduler (Ports cfg)
      | LocalObjStore \<Rightarrow> port_LocalObjectStore (Ports cfg)
      | Worker \<Rightarrow> port_LocalWorkerStart (Ports cfg))"

definition service_node :: "Config \<Rightarrow> service \<Rightarrow> int option" where
  "service_node cfg svc =
     (case svc of
        GCSFunc \<Rightarrow> Some (id_GCS (NodeIDs cfg))
      | GCSObj \<Rightarrow> Some (id_GCS (NodeIDs cfg))
      | GlobalSched \<Rightarrow> Some (id_GlobalScheduler (NodeIDs cfg))
      | _ \<Rightarrow> None)"

definition expected_address :: "Config \<Rightarrow> service \<Rightarrow> string" where
  "expected_address cfg svc =
     (case service_node cfg svc of
        Some node \<Rightarrow> node_address (NodePrefix cfg) node (service_port cfg svc)
      | None \<Rightarrow> localhost (service_port cfg svc))"

definition processes :: "Config \<Rightarrow> process list" where
  "processes cfg =
     [gcsfunctable_main cfg None None, gcsobjtable_main cfg None None, globalscheduler_main cfg None None,
      localscheduler_main cfg None None, localobjstore_main cfg None None, worker_main cfg None None None None]"

text \<open>No \<open>main\<close> sees a nil configuration: \<open>init\<close> ends the process or leaves what was decoded.\<close>

lemma GetConfig_not_nil:
  "config_init yamlFile unmarshal cfg = Return cfg' \<Longrightarrow>
     \<exists>text config. yamlFile = Inr text \<and> unmarshal text = Inr config \<and> GetConfig cfg' = Some config"
  by (auto simp: config_init_def LoadConfig_def GetConfig_def split: sum.splits outcome.splits)

lemma store_literal: "localhost p = ''localhost:50000'' \<longleftrightarrow> p = 50000"
proof -
  have "Itoa 50000 = ''50000''" by (simp add: Itoa_def dec.simps)
  then have l: "localhost 50000 = ''localhost:50000''" by (simp add: localhost_def)
  have "p = 50000" if "localhost p = localhost 50000"
  proof (cases "p < 0")
    case True
    with that have "''-'' @ dec (nat (- p)) = ''50000''" by (simp add: localhost_def Itoa_def dec.simps)
    then show ?thesis by simp
  next
    case False
    with that have "dec (nat p) = dec 50000" by (simp add: localhost_def Itoa_def)
    then show ?thesis using False by simp
  qed
  with l show ?thesis by metis
qed

text \<open>C40 Every process listens on the port at which the others expect its service, and every client
  a process opens at start-up goes to the address where that service listens, for every
  configuration whose object store port is 50000, and for no other: the worker has that port built
  in.\<close>

theorem services_are_wired:
  "(\<forall>p \<in> set (processes cfg). listens p = listen_address (service_port cfg (serves p)) \<and>
      (\<forall>(svc, addr) \<in> set (dials p). addr = expected_address cfg svc)) \<longleftrightarrow>
   port_LocalObjectStore (Ports cfg) = 50000"
  by (auto simp: processes_def gcsfunctable_main_def gcsobjtable_main_def globalscheduler_main_def
      localscheduler_main_def localobjstore_main_def startServer_def worker_main_def createGRPCClient_def
      expected_address_def service_node_def service_port_def Let_def store_literal
      dest: sym simp: eq_commute[of "''localhost:50000''"])

theorem services_are_wired_witness:
  "list_all (\<lambda>p. listens p = listen_address (service_port app_config (serves p)) \<and>
      list_all (\<lambda>(svc, addr). addr = expected_address app_config svc) (dials p)) (processes app_config)"
  unfolding list_all_iff using services_are_wired[of app_config] by (simp add: app_config_def)

text \<open>Two services of the shipped configuration never share an address: on every node the
  listening ports of the services that run there are different, and two node addresses are equal
  only if node and port are.\<close>

theorem addresses_are_distinct:
  "distinct [port_GCSFunctionTable (Ports app_config), port_GCSObjectTable (Ports app_config)] \<and>
   distinct [port_LocalObjectStore (Ports app_config), port_LocalScheduler (Ports app_config),
             port_LocalWorkerStart (Ports app_config)] \<and>
   (node_address (NodePrefix app_config) (int n) (int p) = node_address (NodePrefix app_config) (int n') (int p')
      \<longleftrightarrow> n = n' \<and> p = p')"
proof -
  have colon: "CHR '':'' \<notin> set (dec k)" for k using dec_digits[of "CHR '':''" k] by (auto simp: is_digit_def)
  have "n = n' \<and> p = p'" if "dec n @ '':'' @ dec p = dec n' @ '':'' @ dec p'"
  proof -
    have "takeWhile (\<lambda>c. c \<noteq> CHR '':'') (dec k @ '':'' @ r) = dec k" for k r
      using colon[of k] by (subst takeWhile_append2) auto
    then have "dec n = dec n'" using that by metis
    with that show ?thesis by simp
  qed
  then show ?thesis
    by (auto simp: app_config_def node_address_def Itoa_def)
qed

text \<open>With chain replication on, as the shipped configuration has it, the chain conductor and the
  function table claim the same port for the same service, so at most one of them can run on the GCS
  node; a second one ends with the error of listening.\<close>

theorem conductor_takes_the_same_port:
  "map_option listens (gcschainconductor_main app_config None None) =
     Some (listens (gcsfunctable_main app_config None None)) \<and>
   map_option serves (gcschainconductor_main app_config None None) =
     Some (serves (gcsfunctable_main app_config None None)) \<and>
   ends (gcsfunctable_main cfg (Some e) serveErr) = Fatal (''failed to listen: '' @ err_text e)"
  by (simp add: gcschainconductor_main_def gcsfunctable_main_def app_config_def serve_outcome_def)

end
