(* ===== verification/Cluster_System.thy ===== *)
theory Cluster_System
  imports GCS_FuncTable GCS_ObjTable_Inv Local_ObjStore Worker_Node Local_Scheduler Global_Scheduler
    Cluster_Config
begin

text \<open>
  The services put together: one GCS, one global scheduler and, on every node, a local scheduler, a
  worker and an object store, with the calls between them as messages in flight. Every step is one
  handler, critical section or channel operation of one process, run by the definitions of the
  component theories; a message is handled once, in any order, or lost when the call fails.
\<close>

section \<open>Messages\<close>

text \<open>
  A call on its way to the service that handles it. \<open>MRun\<close> and \<open>MLocation\<close> carry the address that was
  dialled, \<open>MRequest\<close> the node it comes from.
\<close>

datatype msg =
    MLineage GlobalScheduleRequest
  | MGenerating GeneratingRequest
  | MRun string RunRequest
  | MSchedule GlobalScheduleRequest
  | MNotify NotifyOwnsRequest
  | MRequest u64 RequestLocationRequest
  | MLocation string LocationFoundCallback
  | MLive LiveNodesRequest
  | MBeat HeartbeatRequest

text \<open>Where the nodes are: their ids, their names, the two ports, and how the GCS sees them.\<close>

record wiring =
  nc_nodes :: "u64 set"
  nc_prefix :: string
  nc_los_port :: int
  nc_worker_port :: int
  nc_peer :: "u64 \<Rightarrow> string"

definition worker_addr :: "wiring \<Rightarrow> u64 \<Rightarrow> string" where
  "worker_addr nc n = node_address (nc_prefix nc) (uint n) (nc_worker_port nc)"

definition los_addr :: "wiring \<Rightarrow> u64 \<Rightarrow> string" where
  "los_addr nc n = node_address (nc_prefix nc) (uint n) (nc_los_port nc)"

definition client_addr :: "wiring \<Rightarrow> u64 \<Rightarrow> string" where
  "client_addr nc n = clientAddress (nc_los_port nc) (nc_peer nc n)"

text \<open>
  The message of each call a component makes. Calls that are answered on the spot (the worker's state,
  the locations of objects, \<open>Copy\<close>) are part of the step that makes them. A call with a nil request
  carries an empty message.
\<close>

fun ls_msg :: "wiring \<Rightarrow> u64 \<Rightarrow> ls_call \<Rightarrow> msg option" where
  "ls_msg nc n (CallRegisterLineage g) = Some (MLineage g)"
| "ls_msg nc n CallWorkerStatus = None"
| "ls_msg nc n (CallRegisterGenerating g) = Some (MGenerating g)"
| "ls_msg nc n (CallRun r) = Some (MRun (worker_addr nc n) r)"
| "ls_msg nc n (CallGlobalSchedule g) = Some (MSchedule g)"

fun gs_msg :: "gs_call \<Rightarrow> msg option" where
  "gs_msg (GCallRegisterLiveNodes l) = Some (MLive l)"
| "gs_msg (GCallGetObjectLocations r) = None"
| "gs_msg (GCallRegisterGenerating g) = Some (MGenerating g)"
| "gs_msg (GCallRun addr r) = Some (MRun addr r)"

fun los_msg :: "u64 \<Rightarrow> los_call \<Rightarrow> msg option" where
  "los_msg n (CallNotifyOwns req) = Some (MNotify req)"
| "los_msg n (CallRequestLocation req) = Some (MRequest n req)"
| "los_msg n (CallCopy addr req) = None"

definition empty_request :: GlobalScheduleRequest where
  "empty_request = \<lparr>gs_Uid = 0, gs_Name = 0, gs_Args = [], gs_Kwargs = [], gs_Uids = [],
     gs_NewObject = False, gs_NodeId = 0, gs_LocalityFlag = False\<rparr>"

fun gcs_msg :: "gcs_call \<Rightarrow> msg option" where
  "gcs_msg (CallLocationFound addr cb) = Some (MLocation addr cb)"
| "gcs_msg (CallSchedule l) = Some (MSchedule (case l of Some g \<Rightarrow> g | None \<Rightarrow> empty_request))"

definition post :: "('c \<Rightarrow> msg option) \<Rightarrow> 'c list \<Rightarrow> msg multiset" where
  "post f calls = mset (List.map_filter f calls)"

text \<open>The operation of the object table a message asks for.\<close>

fun gcs_accepts :: "wiring \<Rightarrow> msg \<Rightarrow> gcs_op \<Rightarrow> bool" where
  "gcs_accepts nc (MNotify req) (OpNotify req') = (req' = req)"
| "gcs_accepts nc (MRequest n req) (OpRequest r peer req') = (peer = Some (nc_peer nc n) \<and> req' = req)"
| "gcs_accepts nc (MLineage g) (OpLineage g') = (g' = g)"
| "gcs_accepts nc (MLive l) (OpLiveNodes ks l') = (l' = l)"
| "gcs_accepts nc (MGenerating g) (OpGenerating g') = (g' = g)"
| "gcs_accepts nc m op = False"

section \<open>State\<close>

datatype proc = PGlobalSched | PLocalSched u64 | PObjStore u64

text \<open>
  \<open>c_copied\<close> is what the dial and the \<open>Copy\<close> call of a \<open>Get\<close> came back with; \<open>c_down\<close> the processes
  that ended. Two fields record history: the tasks that were submitted, by uid, and the answers to
  \<open>Get\<close>.
\<close>

record 'db cluster =
  c_gcs :: "'db GCSObjServer"
  c_gos :: "gcs_go multiset"
  c_ft :: GCSFuncServer
  c_gs :: gs_server
  c_los :: "u64 \<Rightarrow> los_sys"
  c_copied :: "u64 \<Rightarrow> nat \<Rightarrow> (go_error option \<times> CopyResponse ret) option"
  c_worker :: "u64 \<Rightarrow> workerServer"
  c_ls :: "u64 \<Rightarrow> ls_server"
  c_net :: "msg multiset"
  c_down :: "proc set"
  c_tasks :: "u64 \<rightharpoonup> ScheduleRequest"
  c_answers :: "(u64 \<times> GetRequest \<times> GetResponse ret) list"

definition new_cluster :: "'db GCSObjServer \<Rightarrow> (u64 \<Rightarrow> machine) \<Rightarrow> 'db cluster" where
  "new_cluster g ms =
     \<lparr>c_gcs = g, c_gos = {#}, c_ft = NewGCSFuncServer, c_gs = \<lparr>gs_status = Map.empty\<rparr>,
      c_los = (\<lambda>n. los_start (new_los n (ms n))), c_copied = (\<lambda>_ _. None),
      c_worker = (\<lambda>_. new_worker), c_ls = (\<lambda>n. \<lparr>ls_localNodeID = n, ls_alive = True\<rparr>),
      c_net = {#}, c_down = {}, c_tasks = Map.empty, c_answers = []\<rparr>"

definition ended :: "proc \<Rightarrow> 'a outcome \<Rightarrow> proc set \<Rightarrow> proc set" where
  "ended p out down = (case out of Fatal _ \<Rightarrow> insert p down | _ \<Rightarrow> down)"

section \<open>Steps\<close>

text \<open>
  What a task of a worker may meet: the function table's answer or a failed call, Python running
  \<open>execute.py\<close> or a process that fails. A \<open>Store\<close> that reached the object store is the step \<open>stores\<close>.
\<close>

definition task_env ::
  "(bytes \<Rightarrow> bytes \<Rightarrow> bytes \<Rightarrow> string \<times> (string + bytes)) \<Rightarrow> GCSFuncServer \<Rightarrow> run_pc \<Rightarrow> run_env \<Rightarrow> bool" where
  "task_env call ft p e \<longleftrightarrow>
     (\<forall>req. p = RStarted req \<longrightarrow>
        answered (e_fetch e) (fst (FetchFunc \<lparr>fe_Name = run_Name req, fe_CallbackNodeId = 0\<rparr> ft))) \<and>
     (e_python e = execute_py call \<or> (\<exists>err. e_python e = (\<lambda>_. Inl err))) \<and>
     (\<forall>req out. p = RStoring req out \<longrightarrow> (\<exists>err. e_store e = Inl err))"

text \<open>
  The steps. Names of functions and uids of tasks are drawn at random from \<open>2 ^ 64\<close> and \<open>2 ^ 63\<close> numbers;
  a draw that was drawn before is left out (\<open>registers\<close>, \<open>submits\<close>). The answer to a call that waits is
  allowed to come early, late or not at all, which includes the orders the code produces: the global
  scheduler, for one, may end at any moment (\<open>gs_ends\<close>), as it does when a \<open>Run\<close> it waits for fails, and
  what it sees of its table while it compares nodes (\<open>seen\<close>, in \<open>places\<close>) is left open. Any other process that
  crashes is one that takes no further step; none is started again. \<open>RegisterLiveNodes\<close>, \<open>RegisterLineage\<close>
  and \<open>Store\<close> are one step each, although the code does not hold one lock over them.
\<close>

inductive cluster_step ::
  "wiring \<Rightarrow> 'db sql_driver \<Rightarrow> (bytes \<Rightarrow> bytes \<Rightarrow> bytes \<Rightarrow> string \<times> (string + bytes)) \<Rightarrow>
     'db cluster \<Rightarrow> 'db cluster \<Rightarrow> bool"
  for nc drv call where
  registers: "RegisterFunc src req (c_ft c) = (r, ft') \<Longrightarrow>
    (\<And>name. generateUID src = Inr name \<Longrightarrow> functionStore (c_ft c) name = None) \<Longrightarrow>
    cluster_step nc drv call c (c\<lparr>c_ft := ft'\<rparr>)"
| submits: "n \<in> nc_nodes nc \<Longrightarrow> PLocalSched n \<notin> c_down c \<Longrightarrow>
    answered st (WorkerStatus (c_worker c n)) \<Longrightarrow> c_tasks c (TruncateHighBit r) = None \<Longrightarrow>
    ls_Schedule r st req (c_ls c n) = (out, calls, bg) \<Longrightarrow>
    cluster_step nc drv call c
      (c\<lparr>c_tasks := (c_tasks c)(TruncateHighBit r \<mapsto> req),
         c_net := c_net c + post (ls_msg nc n) (calls @ bg),
         c_down := ended (PLocalSched n) out (c_down c)\<rparr>)"
| beats: "n \<in> nc_nodes nc \<Longrightarrow> PLocalSched n \<notin> c_down c \<Longrightarrow>
    (\<forall>a \<in> set sts. answered a (WorkerStatus (c_worker c n))) \<Longrightarrow>
    (\<forall>a \<in> set bws. answered a (AvgBandwidth (srv (c_los c n)))) \<Longrightarrow>
    heartbeat_round sts bws n (c_ls c n) = Some (Some hb, ms) \<Longrightarrow>
    cluster_step nc drv call c (c\<lparr>c_net := add_mset (MBeat hb) (c_net c)\<rparr>)"
| ls_kill: "cluster_step nc drv call c (c\<lparr>c_ls := (c_ls c)(n := snd (ls_KillServer (c_ls c n)))\<rparr>)"
| ls_revive: "cluster_step nc drv call c (c\<lparr>c_ls := (c_ls c)(n := snd (ls_ReviveServer (c_ls c n)))\<rparr>)"
| hears: "c_net c = add_mset (MBeat hb) N \<Longrightarrow> PGlobalSched \<notin> c_down c \<Longrightarrow>
    Heartbeat now hb (c_gs c) = (r, gs') \<Longrightarrow>
    cluster_step nc drv call c (c\<lparr>c_gs := gs', c_net := N\<rparr>)"
| reports: "PGlobalSched \<notin> c_down c \<Longrightarrow> map_order ks (gs_status (c_gs c)) \<Longrightarrow>
    cluster_step nc drv call c
      (c\<lparr>c_net := c_net c + post gs_msg (SendLiveNodes clock ks (c_gs c))\<rparr>)"
| places: "c_net c = add_mset (MSchedule req) N \<Longrightarrow> PGlobalSched \<notin> c_down c \<Longrightarrow>
    map_order keys (gs_status (c_gs c)) \<Longrightarrow>
    answered locations (GetObjectLocations \<lparr>ol_Args = gs_Uids req\<rparr> (c_gcs c)) \<Longrightarrow>
    (\<And>resp. locations = Inr resp \<Longrightarrow> map_order us (olresp_Locations resp)) \<Longrightarrow>
    gs_Schedule (nc_prefix nc) (nc_worker_port nc)
      (getBestWorker clock keys locations us (gs_LocalityFlag req) (gs_Uids req) (c_gs c) seen)
      dialErr result req = (out, calls) \<Longrightarrow>
    cluster_step nc drv call c
      (c\<lparr>c_net := N + post gs_msg calls, c_down := ended PGlobalSched out (c_down c)\<rparr>)"
| gs_ends: "cluster_step nc drv call c (c\<lparr>c_down := insert PGlobalSched (c_down c)\<rparr>)"
| gcs_handles: "c_net c = add_mset m N \<Longrightarrow> gcs_accepts nc m op \<Longrightarrow> gcs_legal op (c_gcs c) \<Longrightarrow>
    gcs_exec drv (nc_los_port nc) op (c_gcs c) = (gos, g') \<Longrightarrow>
    cluster_step nc drv call c (c\<lparr>c_gcs := g', c_gos := c_gos c + mset gos, c_net := N\<rparr>)"
| flushes: "gcs_legal (OpFlush ks ks') (c_gcs c) \<Longrightarrow>
    gcs_exec drv (nc_los_port nc) (OpFlush ks ks') (c_gcs c) = (gos, g') \<Longrightarrow>
    cluster_step nc drv call c (c\<lparr>c_gcs := g'\<rparr>)"
| goes: "c_gos c = add_mset go G \<Longrightarrow>
    cluster_step nc drv call c
      (c\<lparr>c_gos := G, c_net := c_net c + post gcs_msg (run_go dialErr go (c_gcs c))\<rparr>)"
| runs: "n \<in> nc_nodes nc \<Longrightarrow> c_net c = add_mset (MRun (worker_addr nc n) req) N \<Longrightarrow>
    fatal (c_worker c n) = None \<Longrightarrow> Run_enter req (c_worker c n) = (p, w') \<Longrightarrow>
    cluster_step nc drv call c
      (c\<lparr>c_worker := (c_worker c)(n := w'\<lparr>tasks := add_mset p (tasks (c_worker c n))\<rparr>), c_net := N\<rparr>)"
| works: "n \<in> nc_nodes nc \<Longrightarrow> fatal (c_worker c n) = None \<Longrightarrow> tasks (c_worker c n) = add_mset p M \<Longrightarrow>
    task_env call (c_ft c) p e \<Longrightarrow> Run_next e p (c_worker c n) = Some (p', w') \<Longrightarrow>
    cluster_step nc drv call c
      (c\<lparr>c_worker := (c_worker c)(n := w'\<lparr>tasks := add_mset p' M\<rparr>)\<rparr>)"
| stores: "n \<in> nc_nodes nc \<Longrightarrow> fatal (c_worker c n) = None \<Longrightarrow>
    tasks (c_worker c n) = add_mset (RStoring req out) M \<Longrightarrow> PObjStore n \<notin> c_down c \<Longrightarrow>
    length out \<le> max_recv GetServerOptions \<Longrightarrow>
    Store errs \<lparr>st_Uid = run_Uid req, st_ObjectBytes = out\<rparr> (srv (c_los c n)) = (r, calls, srv') \<Longrightarrow>
    answered (e_store e) r \<Longrightarrow>
    Run_next e (RStoring req out) (c_worker c n) = Some (p', w') \<Longrightarrow>
    cluster_step nc drv call c
      (c\<lparr>c_worker := (c_worker c)(n := w'\<lparr>tasks := add_mset p' M\<rparr>),
         c_los := (c_los c)(n := (c_los c n)\<lparr>srv := srv'\<rparr>),
         c_net := c_net c + post (los_msg n) calls\<rparr>)"
| worker_kill: "fatal (c_worker c n) = None \<Longrightarrow> cluster_step nc drv call c
    (c\<lparr>c_worker := (c_worker c)(n := snd (w_KillServer (c_worker c n)))\<rparr>)"
| worker_revive: "fatal (c_worker c n) = None \<Longrightarrow> cluster_step nc drv call c
    (c\<lparr>c_worker := (c_worker c)(n := snd (w_ReviveServer (c_worker c n)))\<rparr>)"
| gets_now: "n \<in> nc_nodes nc \<Longrightarrow> PObjStore n \<notin> c_down c \<Longrightarrow> gets (c_los c n) i = GIdle \<Longrightarrow>
    Get_start req (srv (c_los c n)) = (Some r, calls, srv') \<Longrightarrow>
    cluster_step nc drv call c
      (c\<lparr>c_los := (c_los c)(n := (c_los c n)\<lparr>srv := srv', gets := (gets (c_los c n))(i := GDone r)\<rparr>),
         c_answers := c_answers c @ [(n, req, r)]\<rparr>)"
| gets_later: "n \<in> nc_nodes nc \<Longrightarrow> PObjStore n \<notin> c_down c \<Longrightarrow> gets (c_los c n) i = GIdle \<Longrightarrow>
    Get_start req (srv (c_los c n)) = (None, calls, srv') \<Longrightarrow>
    cluster_step nc drv call c
      (c\<lparr>c_los := (c_los c)(n := (c_los c n)\<lparr>srv := srv', gets := (gets (c_los c n))(i := GCalled req)\<rparr>),
         c_net := c_net c + post (los_msg n) calls\<rparr>)"
| waits: "n \<in> nc_nodes nc \<Longrightarrow> PObjStore n \<notin> c_down c \<Longrightarrow> gets (c_los c n) i = GCalled req \<Longrightarrow>
    localObjectChannels (srv (c_los c n)) (get_Uid req) = Some ch \<Longrightarrow>
    cluster_step nc drv call c
      (c\<lparr>c_los := (c_los c)(n := (c_los c n)\<lparr>gets := (gets (c_los c n))(i := GWaits req ch)\<rparr>)\<rparr>)"
| finds: "n \<in> nc_nodes nc \<Longrightarrow> PObjStore n \<notin> c_down c \<Longrightarrow>
    c_net c = add_mset (MLocation (client_addr nc n) cb) N \<Longrightarrow> lfs (c_los c n) j = LIdle \<Longrightarrow>
    cluster_step nc drv call c
      (c\<lparr>c_los := (c_los c)(n := (c_los c n)\<lparr>lfs := (lfs (c_los c n))
           (j := LSends cb (LocationFound_channel cb (srv (c_los c n))))\<rparr>), c_net := N\<rparr>)"
| meets: "n \<in> nc_nodes nc \<Longrightarrow> PObjStore n \<notin> c_down c \<Longrightarrow> gets (c_los c n) i = GWaits req ch \<Longrightarrow>
    lfs (c_los c n) j = LSends cb (Some ch) \<Longrightarrow>
    cluster_step nc drv call c
      (c\<lparr>c_los := (c_los c)(n := (c_los c n)\<lparr>gets := (gets (c_los c n))(i := GResumed req cb),
           lfs := (lfs (c_los c n))(j := LDone)\<rparr>)\<rparr>)"
| copies: "n \<in> nc_nodes nc \<Longrightarrow> k \<in> nc_nodes nc \<Longrightarrow> PObjStore k \<notin> c_down c \<Longrightarrow>
    gets (c_los c n) i = GResumed req cb \<Longrightarrow> get_Copy req \<Longrightarrow> c_copied c n i = None \<Longrightarrow>
    otherLocalAddress (nc_prefix nc) (nc_los_port nc) cb = los_addr nc k \<Longrightarrow>
    Copy errs \<lparr>cp_Uid = lf_Uid cb, cp_Requester = localNodeID (srv (c_los c n))\<rparr> (srv (c_los c k)) = (out, srv') \<Longrightarrow>
    (answer = (case out of Return r \<Rightarrow> client_sees r | _ \<Rightarrow> Inl (StatusError Internal ''transport is closing''))) \<Longrightarrow>
    cluster_step nc drv call c
      (c\<lparr>c_los := (c_los c)(k := (c_los c k)\<lparr>srv := srv'\<rparr>),
         c_copied := (c_copied c)(n := (c_copied c n)(i \<mapsto> (None, stub_ret answer))),
         c_down := ended (PObjStore k) out (c_down c)\<rparr>)"
| copy_fails: "n \<in> nc_nodes nc \<Longrightarrow> gets (c_los c n) i = GResumed req cb \<Longrightarrow> get_Copy req \<Longrightarrow>
    c_copied c n i = None \<Longrightarrow>
    cluster_step nc drv call c
      (c\<lparr>c_copied := (c_copied c)(n := (c_copied c n)(i \<mapsto> (dialErr, (None, Some e))))\<rparr>)"
| finishes: "n \<in> nc_nodes nc \<Longrightarrow> PObjStore n \<notin> c_down c \<Longrightarrow> gets (c_los c n) i = GResumed req cb \<Longrightarrow>
    (get_Copy req \<Longrightarrow> c_copied c n i = Some (dialErr, copied)) \<Longrightarrow>
    Get_resume errs (nc_prefix nc) (nc_los_port nc) dialErr copied req cb (srv (c_los c n)) = (r, calls, srv') \<Longrightarrow>
    cluster_step nc drv call c
      (c\<lparr>c_los := (c_los c)(n := (c_los c n)\<lparr>srv := srv', gets := (gets (c_los c n))(i := GDone r)\<rparr>),
         c_copied := (c_copied c)(n := (c_copied c n)(i := None)),
         c_net := c_net c + post (los_msg n) calls,
         c_answers := c_answers c @ [(n, req, r)]\<rparr>)"
| loses: "c_net c = add_mset m N \<Longrightarrow> cluster_step nc drv call c (c\<lparr>c_net := N\<rparr>)"

abbreviation cluster_steps ::
  "wiring \<Rightarrow> 'db sql_driver \<Rightarrow> (bytes \<Rightarrow> bytes \<Rightarrow> bytes \<Rightarrow> string \<times> (string + bytes)) \<Rightarrow>
     'db cluster \<Rightarrow> 'db cluster \<Rightarrow> bool" where
  "cluster_steps nc drv call \<equiv> (cluster_step nc drv call)\<^sup>*\<^sup>*"

end
