(* ===== verification/Cluster_Inv.thy ===== *)
theory Cluster_Inv
  imports Cluster_System Local_ObjStore_Props
begin

text \<open>
  What holds in every reachable state of the whole system: everything in flight, queued or stored is
  about the task it names. The results of tasks, the set of stored objects and the function table only
  grow, so whatever was once sound stays sound.
\<close>

section \<open>What the system knows\<close>

text \<open>The submitted tasks, the registered functions, and which node holds which object.\<close>

record world =
  v_tasks :: "u64 \<rightharpoonup> ScheduleRequest"
  v_funcs :: "u64 \<rightharpoonup> bytes"
  v_stored :: "(u64 \<times> u64) set"

definition world :: "wiring \<Rightarrow> 'db cluster \<Rightarrow> world" where
  "world nc c =
     \<lparr>v_tasks = c_tasks c, v_funcs = functionStore (c_ft c),
      v_stored = {(n, u). n \<in> nc_nodes nc \<and> los_objectSizes (srv (c_los c n)) u \<noteq> None}\<rparr>"

definition later :: "world \<Rightarrow> world \<Rightarrow> bool" where
  "later v v' \<longleftrightarrow> v_tasks v \<subseteq>\<^sub>m v_tasks v' \<and> v_funcs v \<subseteq>\<^sub>m v_funcs v' \<and> v_stored v \<subseteq> v_stored v'"

lemma later_refl [simp]: "later v v"
  by (simp add: later_def)

lemma later_tasks: "later v v' \<Longrightarrow> v_tasks v u = Some t \<Longrightarrow> v_tasks v' u = Some t"
  by (auto simp: later_def map_le_def dom_def)

lemma later_funcs: "later v v' \<Longrightarrow> v_funcs v k = Some f \<Longrightarrow> v_funcs v' k = Some f"
  by (auto simp: later_def map_le_def dom_def)

lemma later_stored: "later v v' \<Longrightarrow> x \<in> v_stored v \<Longrightarrow> x \<in> v_stored v'"
  by (auto simp: later_def)

text \<open>
  The result of a task: what running its function, as it is registered, on its arguments yields.
\<close>

definition task_result ::
  "(bytes \<Rightarrow> bytes \<Rightarrow> bytes \<Rightarrow> string \<times> (string + bytes)) \<Rightarrow> world \<Rightarrow> u64 \<Rightarrow> bytes option" where
  "task_result call v uid =
     (case v_tasks v uid of
        None \<Rightarrow> None
      | Some t \<Rightarrow>
          (case v_funcs v (sr_Name t) of
             None \<Rightarrow> None
           | Some f \<Rightarrow>
               (case executeFunction (execute_py call) f (sr_Args t) (sr_Kwargs t) of
                  Return (Some out, None) \<Rightarrow> Some out
                | _ \<Rightarrow> None)))"

lemma task_result_later:
  assumes "later v v'" "task_result call v u = Some bs"
  shows "task_result call v' u = Some bs"
proof -
  obtain t f where "v_tasks v u = Some t" "v_funcs v (sr_Name t) = Some f"
    using assms(2) by (auto simp: task_result_def split: option.splits)
  with assms show ?thesis by (simp add: task_result_def later_tasks later_funcs)
qed

section \<open>Sound requests, messages and tasks\<close>

text \<open>
  A request to run a task describes the task that was submitted under its uid. (Uid 0 is the one an
  empty request carries; nothing is claimed about it.)
\<close>

definition run_ok :: "world \<Rightarrow> RunRequest \<Rightarrow> bool" where
  "run_ok v r \<longleftrightarrow> (run_Uid r \<noteq> 0 \<longrightarrow>
     (\<exists>t. v_tasks v (run_Uid r) = Some t \<and> run_Name r = sr_Name t \<and> run_Args r = sr_Args t \<and>
          run_Kwargs r = sr_Kwargs t))"

definition sched_ok :: "world \<Rightarrow> GlobalScheduleRequest \<Rightarrow> bool" where
  "sched_ok v g \<longleftrightarrow> (gs_Uid g \<noteq> 0 \<longrightarrow>
     (\<exists>t. v_tasks v (gs_Uid g) = Some t \<and> gs_Name g = sr_Name t \<and> gs_Args g = sr_Args t \<and>
          gs_Kwargs g = sr_Kwargs t))"

text \<open>A callback names a node that holds the object, or node 0.\<close>

definition cb_ok :: "world \<Rightarrow> LocationFoundCallback \<Rightarrow> bool" where
  "cb_ok v cb \<longleftrightarrow> lf_Port cb = 0 \<and>
     (lf_Location cb = 0 \<or> (lf_Location cb, lf_Uid cb) \<in> v_stored v)"

fun msg_ok :: "world \<Rightarrow> msg \<Rightarrow> bool" where
  "msg_ok v (MLineage g) = sched_ok v g"
| "msg_ok v (MSchedule g) = sched_ok v g"
| "msg_ok v (MRun addr r) = run_ok v r"
| "msg_ok v (MNotify req) = ((no_NodeId req, no_Uid req) \<in> v_stored v)"
| "msg_ok v (MLocation addr cb) = cb_ok v cb"
| "msg_ok v _ = True"

fun go_ok :: "world \<Rightarrow> gcs_go \<Rightarrow> bool" where
  "go_ok v (GoSendCallback addr u n) = (n = 0 \<or> (n, u) \<in> v_stored v)"
| "go_ok v (GoSchedule u) = True"

text \<open>A task in progress: what it fetched is the registered function, what it computed the result.\<close>

fun pc_ok ::
  "(bytes \<Rightarrow> bytes \<Rightarrow> bytes \<Rightarrow> string \<times> (string + bytes)) \<Rightarrow> world \<Rightarrow> run_pc \<Rightarrow> bool" where
  "pc_ok call v (RQueued r) = run_ok v r"
| "pc_ok call v (RAcquired r) = run_ok v r"
| "pc_ok call v (RStarted r) = run_ok v r"
| "pc_ok call v (RFetched r f) = (run_ok v r \<and> v_funcs v (run_Name r) = Some f)"
| "pc_ok call v (RExecuted r out) = (run_ok v r \<and> (run_Uid r \<noteq> 0 \<longrightarrow> task_result call v (run_Uid r) = Some out))"
| "pc_ok call v (RStoring r out) = (run_ok v r \<and> (run_Uid r \<noteq> 0 \<longrightarrow> task_result call v (run_Uid r) = Some out))"
| "pc_ok call v _ = True"

lemma run_ok_later: "later v v' \<Longrightarrow> run_ok v r \<Longrightarrow> run_ok v' r"
  by (auto simp: run_ok_def dest: later_tasks)

lemma sched_ok_later: "later v v' \<Longrightarrow> sched_ok v g \<Longrightarrow> sched_ok v' g"
  by (auto simp: sched_ok_def dest: later_tasks)

lemma cb_ok_later: "later v v' \<Longrightarrow> cb_ok v cb \<Longrightarrow> cb_ok v' cb"
  by (auto simp: cb_ok_def dest: later_stored)

lemma msg_ok_later: "later v v' \<Longrightarrow> msg_ok v m \<Longrightarrow> msg_ok v' m"
  by (cases m) (auto dest: run_ok_later sched_ok_later cb_ok_later later_stored)

lemma go_ok_later: "later v v' \<Longrightarrow> go_ok v go \<Longrightarrow> go_ok v' go"
  by (cases go) (auto dest: later_stored)

lemma pc_ok_later: "later v v' \<Longrightarrow> pc_ok call v p \<Longrightarrow> pc_ok call v' p"
  by (cases p) (auto dest: run_ok_later later_funcs task_result_later)

lemmas ok_later = run_ok_later sched_ok_later cb_ok_later msg_ok_later go_ok_later pc_ok_later

section \<open>The object table\<close>

text \<open>Recorded requests are sound, and every recorded location, in memory or on disk, holds the object.\<close>

definition gcs_ok :: "('db \<Rightarrow> (u64 \<times> u64) set) \<Rightarrow> world \<Rightarrow> 'db GCSObjServer \<Rightarrow> bool" where
  "gcs_ok rows v g \<longleftrightarrow>
     (\<forall>u l. lineage g u = Some l \<longrightarrow> sched_ok v l) \<and>
     (\<forall>u n. n \<in> set (lookup_list (objectLocations g) u) \<longrightarrow> (n, u) \<in> v_stored v) \<and>
     (\<forall>u n. (u, n) \<in> rows (database g) \<longrightarrow> (n, u) \<in> v_stored v)"

lemma gcs_ok_later: "later v v' \<Longrightarrow> gcs_ok rows v g \<Longrightarrow> gcs_ok rows v' g"
  unfolding gcs_ok_def by (blast intro: sched_ok_later later_stored)

lemma NotifyOwns_lineage [br_frame]: "lineage (snd (snd (NotifyOwns req g))) = lineage g"
  by (auto simp: NotifyOwns_def Let_def split: option.splits)

lemma NotifyOwns_ok:
  assumes "gcs_ok rows v g" "(no_NodeId req, no_Uid req) \<in> v_stored v" "snd (NotifyOwns req g) = (gos, g')"
  shows "gcs_ok rows v g' \<and> (\<forall>go \<in> set gos. go_ok v go)"
proof -
  have g': "g' = snd (snd (NotifyOwns req g))" and gos: "gos = fst (snd (NotifyOwns req g))"
    using assms(3) by simp_all
  show ?thesis
    using assms(1,2) unfolding gcs_ok_def g' gos
    by (auto simp: NotifyOwns_lineage NotifyOwns_objectLocations NotifyOwns_database NotifyOwns_spawned
        split: if_splits)
qed

lemma pickNode_from: "\<exists>m \<in> insert 0 (set ns). pickNode r ns g = ((Some m, True, None), g)"
proof -
  let ?l = "nodesToReturn (liveNodes g) ns"
  have "?l ! Intn r (length ?l) \<in> set ?l" by (rule nth_mem) (simp add: Intn_def nodesToReturn_def)
  then show ?thesis by (auto simp: pickNode_def nodesToReturn_def Let_def)
qed

context sqlite
begin

lemma getNodeId_ok:
  assumes "gcs_ok rows v g" "getNodeId drv r u g = ((n, ex, e), g')"
  shows "gcs_ok rows v g' \<and> (ex \<longrightarrow> the n = 0 \<or> (the n, u) \<in> v_stored v)"
proof (cases "lookup_list (objectLocations g) u = []")
  case True
  show ?thesis
  proof (cases "getObjectLocations drv (database g) u")
    case (Inl x)
    with True assms show ?thesis by (auto simp: getNodeId_def)
  next
    case (Inr ns)
    let ?g = "g\<lparr>objectLocations := (objectLocations g)(u \<mapsto> ns)\<rparr>"
    have ns: "(m, u) \<in> v_stored v" if "m \<in> set ns" for m
      using that assms(1) getObjectLocations_ok[OF Inr] by (auto simp: gcs_ok_def)
    then have "gcs_ok rows v ?g" using assms(1) by (auto simp: gcs_ok_def)
    with True Inr assms(2) ns pickNode_from[of ns r ?g] show ?thesis
      by (auto simp: getNodeId_def Let_def split: if_splits)
  qed
next
  case False
  have ns: "(m, u) \<in> v_stored v" if "m \<in> set (lookup_list (objectLocations g) u)" for m
    using that assms(1) by (auto simp: gcs_ok_def)
  with False assms pickNode_from[of "lookup_list (objectLocations g) u" r g] show ?thesis
    by (auto simp: getNodeId_def)
qed

lemma RequestLocation_ok:
  assumes "gcs_ok rows v g" "snd (RequestLocation drv r port peer req g) = (gos, g')"
  shows "gcs_ok rows v g' \<and> (\<forall>go \<in> set gos. go_ok v go)"
proof (cases peer)
  case None
  with assms show ?thesis by (auto simp: RequestLocation_def)
next
  case (Some a)
  obtain n ex e g1 where n: "getNodeId drv r (rl_Uid req) g = ((n, ex, e), g1)" by (metis prod.collapse)
  from getNodeId_ok[OF assms(1) n] have 1: "gcs_ok rows v g1" "ex \<Longrightarrow> the n = 0 \<or> (the n, rl_Uid req) \<in> v_stored v"
    by auto
  have "gcs_ok rows v (g1\<lparr>waitlist := w\<rparr>)" for w using 1(1) by (simp add: gcs_ok_def)
  with 1 Some n assms(2) show ?thesis
    by (cases e; cases ex) (auto simp: RequestLocation_def Let_def)
qed

lemma flushToDisk_sound:
  assumes "gcs_ok rows v g" "map_order ks (objectLocations g)" "map_order ks' (objectLocations g)"
  shows "gcs_ok rows v (snd (flushToDisk drv ks ks' g))"
proof -
  obtain e db where i: "insertOrUpdateObjectLocations drv ks ks' (objectLocations g) (database g) = (e, db)"
    by fastforce
  show ?thesis
  proof (cases e)
    case (Some x)
    with i have "rows db = rows (database g)" using insertOrUpdate_error by blast
    with Some i assms(1) show ?thesis by (simp add: flushToDisk_def gcs_ok_def)
  next
    case None
    have "(n, u) \<in> v_stored v" if "(u, n) \<in> rows db" for u n
    proof -
      from that save_held[OF i[unfolded None] assms(2,3), of u]
      have "n \<in> (case objectLocations g u of Some ns \<Rightarrow> set ns | None \<Rightarrow> {n. (u, n) \<in> rows (database g)})"
        by blast
      then show ?thesis using assms(1) by (auto simp: gcs_ok_def lookup_list_def split: option.splits)
    qed
    with None i assms(1) show ?thesis by (simp add: flushToDisk_def gcs_ok_def)
  qed
qed

lemma gcs_exec_ok:
  assumes "gcs_ok rows v g" "gcs_legal op g" "gcs_exec drv port op g = (gos, g')"
    and "\<And>req. op = OpNotify req \<Longrightarrow> (no_NodeId req, no_Uid req) \<in> v_stored v"
    and "\<And>l. op = OpLineage l \<Longrightarrow> sched_ok v l"
  shows "gcs_ok rows v g' \<and> (\<forall>go \<in> set gos. go_ok v go)"
proof (cases op)
  case (OpNotify req)
  with assms show ?thesis by (intro NotifyOwns_ok[OF assms(1)]) auto
next
  case (OpRequest r peer req)
  with assms show ?thesis by (intro RequestLocation_ok[OF assms(1)]) auto
next
  case (OpLineage l)
  with assms show ?thesis
    by (cases "lineage_check l g") (auto simp: RegisterLineage_def lineage_store_def gcs_ok_def split: if_splits)
next
  case (OpLiveNodes ks req)
  with assms show ?thesis by (auto simp: RegisterLiveNodes_def Let_def gcs_ok_def)
next
  case (OpGenerating req)
  with assms show ?thesis by (auto simp: RegisterGenerating_def gcs_ok_def)
next
  case (OpFlush ks ks')
  with assms flushToDisk_sound[OF assms(1), of ks ks'] show ?thesis by auto
qed

end

text \<open>The goroutines of the table send sound messages.\<close>

lemma run_go_ok:
  assumes "gcs_ok rows v g" "go_ok v go" "m \<in># post gcs_msg (run_go dialErr go g)"
  shows "msg_ok v m"
proof (cases go)
  case (GoSendCallback addr u n)
  with assms(2,3) show ?thesis
    by (auto simp: post_def sendCallback_def cb_ok_def List.map_filter_def split: option.splits)
next
  case (GoSchedule u)
  with assms(1,3) show ?thesis
    by (auto simp: post_def List.map_filter_def sched_ok_def empty_request_def gcs_ok_def split: option.splits)
qed

section \<open>The object stores\<close>

text \<open>
  A store holds an object: its size is recorded and its file has its bytes. Objects that came in a
  message are not longer than a message may be.
\<close>

definition holds :: "los_server \<Rightarrow> u64 \<Rightarrow> bytes \<Rightarrow> bool" where
  "holds s u bs \<longleftrightarrow> bs \<noteq> [] \<and> length bs \<le> max_recv GetServerOptions \<and>
     los_objectSizes s u = Some (of_nat (length bs)) \<and> files (host s) (shm_path (FormatUint u)) = Some bs"

definition objs_ok ::
  "(bytes \<Rightarrow> bytes \<Rightarrow> bytes \<Rightarrow> string \<times> (string + bytes)) \<Rightarrow> world \<Rightarrow> los_server \<Rightarrow> bool" where
  "objs_ok call v s \<longleftrightarrow>
     (\<forall>u. u \<noteq> 0 \<and> los_objectSizes s u \<noteq> None \<longrightarrow>
        (\<exists>bs. task_result call v u = Some bs \<and> holds s u bs))"

lemma objs_ok_later: "later v v' \<Longrightarrow> objs_ok call v s \<Longrightarrow> objs_ok call v' s"
  unfolding objs_ok_def by (blast intro: task_result_later)

lemma objs_okD:
  "objs_ok call v s \<Longrightarrow> u \<noteq> 0 \<Longrightarrow> los_objectSizes s u \<noteq> None \<Longrightarrow>
    \<exists>bs. task_result call v u = Some bs \<and> holds s u bs"
  by (auto simp: objs_ok_def)

text \<open>Storing an object again, even when it fails half-way, does not change its file.\<close>

lemma put_shared_again:
  assumes "files (host s) (shm_path (FormatUint u)) = Some bs" "bs \<noteq> []"
  shows "files (host (snd (put_shared errs u bs s))) (shm_path (FormatUint u)) = Some bs"
  using assms
  by (auto simp: put_shared_def createSharedMemory_def sys_open_def sys_ftruncate_def sys_mmap_def
      copy_into_def Let_def split: option.splits)

lemma put_shared_sizes:
  assumes "put_shared errs u bs s = (e, s')"
  shows "los_objectSizes s' = (if e = None then (los_objectSizes s)(u \<mapsto> of_nat (length bs)) else los_objectSizes s)"
    and "e = None \<Longrightarrow> bs \<noteq> [] \<and> files (host s') (shm_path (FormatUint u)) = Some bs"
    and "u' \<noteq> u \<Longrightarrow> files (host s') (shm_path (FormatUint u')) = files (host s) (shm_path (FormatUint u'))"
  using assms by (cases rule: put_shared_cases[of errs bs u s]; auto simp: filled_def)+

lemma put_shared_ok_objs:
  assumes "put_shared errs u bs s = (e, s')" "objs_ok call v s"
    and "u \<noteq> 0 \<Longrightarrow> task_result call v u = Some bs \<and> length bs \<le> max_recv GetServerOptions"
  shows "objs_ok call v s'"
  unfolding objs_ok_def
proof (intro allI impI, elim conjE)
  fix w assume w: "w \<noteq> 0" "los_objectSizes s' w \<noteq> None"
  note z = put_shared_sizes[OF assms(1)]
  show "\<exists>bs. task_result call v w = Some bs \<and> holds s' w bs"
  proof (cases "w = u")
    case False
    then have "los_objectSizes s' w = los_objectSizes s w" using z(1) by simp
    moreover from this w obtain b where "task_result call v w = Some b" "holds s w b"
      using objs_okD[OF assms(2)] by metis
    ultimately show ?thesis using z(3)[OF False] by (auto simp: holds_def)
  next
    case True
    have new: "task_result call v u = Some bs" "length bs \<le> max_recv GetServerOptions"
      using assms(3) w True by auto
    show ?thesis
    proof (cases e)
      case None
      with new z(1,2) True show ?thesis by (auto simp: holds_def)
    next
      case (Some x)
      with z(1) w True have "los_objectSizes s u \<noteq> None" by simp
      with w True obtain b where "task_result call v u = Some b" "holds s u b"
        using objs_okD[OF assms(2)] by blast
      with new have h: "holds s u bs" by simp
      then have "files (host s') (shm_path (FormatUint u)) = Some bs"
        using put_shared_again[of s u bs errs] assms(1) by (simp add: holds_def)
      with h Some z(1) new True show ?thesis by (auto simp: holds_def)
    qed
  qed
qed

text \<open>What \<open>Copy\<close> delivers of an object that is held.\<close>

lemma Copy_holds:
  assumes "holds s u bs" "cp_Uid req = u" "Copy errs req s = (out, s')"
  shows "(\<exists>e. out = Return (None, Some e)) \<or> out = Return (Some \<lparr>cpresp_Uid = u, cpresp_ObjectBytes = bs\<rparr>, None)"
    and "errs = no_errors \<Longrightarrow> out = Return (Some \<lparr>cpresp_Uid = u, cpresp_ObjectBytes = bs\<rparr>, None)"
proof -
  have len: "0 < length bs" "length bs < 2 ^ 63"
    using assms(1) by (auto simp: holds_def GetServerOptions_def)
  note d = Copy_def readSharedMemory_def sys_open_def sys_mmap_def sys_close_def read_map_def
    sint_of_nat_length[OF len(2)]
  show "(\<exists>e. out = Return (None, Some e)) \<or> out = Return (Some \<lparr>cpresp_Uid = u, cpresp_ObjectBytes = bs\<rparr>, None)"
    using assms len by (auto simp: holds_def d split: option.splits)
  show "out = Return (Some \<lparr>cpresp_Uid = u, cpresp_ObjectBytes = bs\<rparr>, None)" if "errs = no_errors"
    using assms len that by (auto simp: holds_def d no_errors_def)
qed

lemma Copy_frame:
  assumes "Copy errs req s = (out, s')"
  shows "los_objectSizes s' = los_objectSizes s" "files (host s') = files (host s)"
    "localObjectChannels s' = localObjectChannels s" "next_chan s' = next_chan s"
    "localNodeID s' = localNodeID s"
  using assms
  by (auto simp: Copy_def readSharedMemory_def sys_open_def sys_mmap_def sys_close_def
      split: option.splits prod.splits sum.splits if_splits)

lemma objs_ok_cong:
  "los_objectSizes s' = los_objectSizes s \<Longrightarrow> files (host s') = files (host s) \<Longrightarrow>
    objs_ok call v s' = objs_ok call v s"
  by (simp add: objs_ok_def holds_def)

text \<open>
  One object store with its calls in progress. What a \<open>Get\<close> was sent and what it copied is sound, and
  only a \<open>Get\<close> that was sent a location has copied anything.
\<close>

definition reply_ok ::
  "(bytes \<Rightarrow> bytes \<Rightarrow> bytes \<Rightarrow> string \<times> (string + bytes)) \<Rightarrow> world \<Rightarrow> u64 \<Rightarrow>
     go_error option \<times> CopyResponse ret \<Rightarrow> bool" where
  "reply_ok call v u rep \<longleftrightarrow>
     (\<forall>x. rep = (None, (Some x, None)) \<and> u \<noteq> 0 \<longrightarrow>
        task_result call v u = Some (cpresp_ObjectBytes x) \<and>
        length (cpresp_ObjectBytes x) \<le> max_recv GetServerOptions)"

definition los_ok ::
  "(bytes \<Rightarrow> bytes \<Rightarrow> bytes \<Rightarrow> string \<times> (string + bytes)) \<Rightarrow> world \<Rightarrow> u64 \<Rightarrow> los_sys \<Rightarrow>
     (nat \<Rightarrow> (go_error option \<times> CopyResponse ret) option) \<Rightarrow> bool" where
  "los_ok call v n L cop \<longleftrightarrow>
     objs_ok call v (srv L) \<and> localNodeID (srv L) = n \<and> (\<exists>own. chan_inv own L) \<and>
     (\<forall>j cb ch. lfs L j = LSends cb ch \<longrightarrow> cb_ok v cb) \<and>
     (\<forall>i req cb. gets L i = GResumed req cb \<longrightarrow> cb_ok v cb) \<and>
     (\<forall>i rep. cop i = Some rep \<longrightarrow> (\<exists>req cb. gets L i = GResumed req cb \<and> reply_ok call v (get_Uid req) rep))"

lemma reply_ok_later: "later v v' \<Longrightarrow> reply_ok call v u rep \<Longrightarrow> reply_ok call v' u rep"
  unfolding reply_ok_def by (blast intro: task_result_later)

lemma los_ok_later: "later v v' \<Longrightarrow> los_ok call v n L cop \<Longrightarrow> los_ok call v' n L cop"
  unfolding los_ok_def
  by (elim conjE, intro conjI) (blast intro: cb_ok_later reply_ok_later objs_ok_later)+

lemma los_okD:
  assumes "los_ok call v n L cop"
  shows "objs_ok call v (srv L)" "localNodeID (srv L) = n" "\<exists>own. chan_inv own L"
    "lfs L j = LSends cb ch \<Longrightarrow> cb_ok v cb"
    "gets L i = GResumed req cb \<Longrightarrow> cb_ok v cb \<and> lf_Uid cb = get_Uid req"
    "gets L i = GResumed req cb \<Longrightarrow> cop i = Some rep \<Longrightarrow> reply_ok call v (get_Uid req) rep"
    "(\<And>req cb. gets L i \<noteq> GResumed req cb) \<Longrightarrow> cop i = None"
proof -
  note l = assms[unfolded los_ok_def]
  show "objs_ok call v (srv L)" "localNodeID (srv L) = n" "\<exists>own. chan_inv own L"
    "lfs L j = LSends cb ch \<Longrightarrow> cb_ok v cb" using l by blast+
  show "cb_ok v cb \<and> lf_Uid cb = get_Uid req" if "gets L i = GResumed req cb"
    using l that by (auto simp: chan_inv_def)
  show "reply_ok call v (get_Uid req) rep" if "gets L i = GResumed req cb" "cop i = Some rep"
  proof -
    from l that(2) obtain req' cb' where "gets L i = GResumed req' cb'" "reply_ok call v (get_Uid req') rep"
      by blast
    with that(1) show ?thesis by simp
  qed
  show "cop i = None" if no: "\<And>req cb. gets L i \<noteq> GResumed req cb"
  proof (rule ccontr)
    assume "cop i \<noteq> None"
    with l obtain req cb where "gets L i = GResumed req cb" by blast
    with no show False by blast
  qed
qed

text \<open>A sound answer to a \<open>Get\<close>.\<close>

fun answer_ok ::
  "(bytes \<Rightarrow> bytes \<Rightarrow> bytes \<Rightarrow> string \<times> (string + bytes)) \<Rightarrow> world \<Rightarrow>
     u64 \<times> GetRequest \<times> GetResponse ret \<Rightarrow> bool" where
  "answer_ok call v (n, req, (Some resp, None)) =
     (get_Uid req \<noteq> 0 \<longrightarrow> gresp_Uid resp = get_Uid req \<and>
        (if gresp_Local resp
         then (n, get_Uid req) \<in> v_stored v \<and>
           (\<exists>bs. task_result call v (get_Uid req) = Some bs \<and> gresp_Size resp = of_nat (length bs))
         else if get_Copy req then task_result call v (get_Uid req) = Some (gresp_ObjectBytes resp)
         else gresp_ObjectBytes resp = []))"
| "answer_ok call v _ = True"

lemma answer_ok_later:
  assumes "later v v'" "answer_ok call v a"
  shows "answer_ok call v' a"
  using assms
  by (cases "(call, v, a)" rule: answer_ok.cases) (auto dest: later_stored task_result_later split: if_splits)

section \<open>The invariant\<close>

definition cluster_inv ::
  "wiring \<Rightarrow> (bytes \<Rightarrow> bytes \<Rightarrow> bytes \<Rightarrow> string \<times> (string + bytes)) \<Rightarrow> ('db \<Rightarrow> (u64 \<times> u64) set) \<Rightarrow>
     'db cluster \<Rightarrow> bool" where
  "cluster_inv nc call rows c \<longleftrightarrow>
     (\<forall>m \<in># c_net c. msg_ok (world nc c) m) \<and>
     (\<forall>go \<in># c_gos c. go_ok (world nc c) go) \<and>
     gcs_ok rows (world nc c) (c_gcs c) \<and>
     (\<forall>n p. p \<in># tasks (c_worker c n) \<longrightarrow> pc_ok call (world nc c) p) \<and>
     (\<forall>n. los_ok call (world nc c) n (c_los c n) (c_copied c n)) \<and>
     (\<forall>n. ls_localNodeID (c_ls c n) = n) \<and>
     (\<forall>a \<in> set (c_answers c). answer_ok call (world nc c) a)"

lemma cluster_invD:
  assumes "cluster_inv nc call rows c"
  shows "m \<in># c_net c \<Longrightarrow> msg_ok (world nc c) m"
    "go \<in># c_gos c \<Longrightarrow> go_ok (world nc c) go"
    "gcs_ok rows (world nc c) (c_gcs c)"
    "p \<in># tasks (c_worker c n) \<Longrightarrow> pc_ok call (world nc c) p"
    "los_ok call (world nc c) n (c_los c n) (c_copied c n)"
    "ls_localNodeID (c_ls c n) = n"
    "a \<in> set (c_answers c) \<Longrightarrow> answer_ok call (world nc c) a"
  using assms by (auto simp: cluster_inv_def)

text \<open>To keep the invariant, a step must only account for what is new.\<close>

lemma cluster_invI:
  assumes "cluster_inv nc call rows c" "later (world nc c) (world nc c')"
    and "\<And>m. m \<in># c_net c' \<Longrightarrow> m \<in># c_net c \<or> msg_ok (world nc c') m"
    and "\<And>go. go \<in># c_gos c' \<Longrightarrow> go \<in># c_gos c \<or> go_ok (world nc c') go"
    and "c_gcs c' = c_gcs c \<or> gcs_ok rows (world nc c') (c_gcs c')"
    and "\<And>n p. p \<in># tasks (c_worker c' n) \<Longrightarrow> p \<in># tasks (c_worker c n) \<or> pc_ok call (world nc c') p"
    and "\<And>n. (c_los c' n = c_los c n \<and> c_copied c' n = c_copied c n) \<or>
           los_ok call (world nc c') n (c_los c' n) (c_copied c' n)"
    and "\<And>n. ls_localNodeID (c_ls c' n) = ls_localNodeID (c_ls c n)"
    and "\<And>a. a \<in> set (c_answers c') \<Longrightarrow> a \<in> set (c_answers c) \<or> answer_ok call (world nc c') a"
  shows "cluster_inv nc call rows c'"
  unfolding cluster_inv_def
proof (intro conjI allI impI ballI)
  note old = cluster_invD[OF assms(1)]
  show "msg_ok (world nc c') m" if "m \<in># c_net c'" for m
    using assms(3)[OF that] old(1) msg_ok_later[OF assms(2)] by blast
  show "go_ok (world nc c') go" if "go \<in># c_gos c'" for go
    using assms(4)[OF that] old(2) go_ok_later[OF assms(2)] by blast
  show "gcs_ok rows (world nc c') (c_gcs c')"
    using assms(5) old(3) gcs_ok_later[OF assms(2)] by metis
  show "pc_ok call (world nc c') p" if "p \<in># tasks (c_worker c' n)" for n p
    using assms(6)[OF that] old(4) pc_ok_later[OF assms(2)] by blast
  show "los_ok call (world nc c') n (c_los c' n) (c_copied c' n)" for n
    using assms(7)[of n] old(5)[of n] los_ok_later[OF assms(2)] by metis
  show "ls_localNodeID (c_ls c' n) = n" for n using assms(8) old(6) by simp
  show "answer_ok call (world nc c') a" if "a \<in> set (c_answers c')" for a
    using assms(9)[OF that] old(7) answer_ok_later[OF assms(2)] by blast
qed

section \<open>Each kind of step\<close>

lemma world_upd [simp]:
  "world nc (c\<lparr>c_gcs := g\<rparr>) = world nc c" "world nc (c\<lparr>c_gos := gos\<rparr>) = world nc c"
  "world nc (c\<lparr>c_gs := gs\<rparr>) = world nc c" "world nc (c\<lparr>c_copied := cop\<rparr>) = world nc c"
  "world nc (c\<lparr>c_worker := ws\<rparr>) = world nc c" "world nc (c\<lparr>c_ls := ls\<rparr>) = world nc c"
  "world nc (c\<lparr>c_net := N\<rparr>) = world nc c" "world nc (c\<lparr>c_down := d\<rparr>) = world nc c"
  "world nc (c\<lparr>c_answers := as\<rparr>) = world nc c"
  by (simp_all add: world_def)

lemma world_los:
  "los_objectSizes (srv L) = los_objectSizes (srv (c_los c n)) \<Longrightarrow>
    world nc (c\<lparr>c_los := (c_los c)(n := L)\<rparr>) = world nc c"
  by (auto simp: world_def split: if_splits)

lemma world_los_later:
  "dom (los_objectSizes (srv (c_los c n))) \<subseteq> dom (los_objectSizes (srv L)) \<Longrightarrow>
    later (world nc c) (world nc (c\<lparr>c_los := (c_los c)(n := L)\<rparr>))"
  by (auto simp: world_def later_def) blast

lemma in_world_stored [simp]:
  "(n, u) \<in> v_stored (world nc c) \<longleftrightarrow> n \<in> nc_nodes nc \<and> los_objectSizes (srv (c_los c n)) u \<noteq> None"
  by (simp add: world_def)

lemma post_simps [simp]:
  "post f [] = {#}"
  "post f (x # xs) = (case f x of None \<Rightarrow> post f xs | Some m \<Rightarrow> add_mset m (post f xs))"
  "post f (xs @ ys) = post f xs + post f ys"
  by (simp_all add: post_def List.map_filter_def split: option.split)

lemma RegisterFunc_later:
  assumes "RegisterFunc src req ft = (r, ft')"
    and "\<And>name. generateUID src = Inr name \<Longrightarrow> functionStore ft name = None"
  shows "functionStore ft \<subseteq>\<^sub>m functionStore ft'"
  using assms by (auto simp: RegisterFunc_def map_le_def split: sum.splits)

lemma ls_Schedule_ok:
  assumes "ls_Schedule r st req s = (out, calls, bg)" "v_tasks v (TruncateHighBit r) = Some req"
    and "m \<in># post (ls_msg nc n) (calls @ bg)"
  shows "msg_ok v m"
  using assms
  by (auto simp: ls_Schedule_def Let_def global_request_def sched_ok_def run_ok_def split: if_splits sum.splits)

lemma getBestWorker_silent: "post gs_msg (snd (getBestWorker clock keys answer us flag uids s seen)) = {#}"
  by (auto simp: getBestWorker_def split: sum.split)

lemma gs_Schedule_ok:
  assumes "gs_Schedule prefix port best dialErr result req = (out, calls)" "sched_ok v req"
    and "post gs_msg (snd best) = {#}" "m \<in># post gs_msg calls"
  shows "msg_ok v m"
  using assms
  by (cases best)
    (auto simp: gs_Schedule_def Let_def sched_ok_def run_ok_def split: if_splits outcome.splits option.splits sum.splits)

lemma executeFunction_result:
  assumes "run_ok v r" "run_Uid r \<noteq> 0" "v_funcs v (run_Name r) = Some f"
    and "executeFunction (execute_py call) f (run_Args r) (run_Kwargs r) = Return (Some out, None)"
  shows "task_result call v (run_Uid r) = Some out"
  using assms by (auto simp: run_ok_def task_result_def)

lemma Run_next_ok:
  assumes "pc_ok call v p" "task_env call ft p e" "v_funcs v = functionStore ft"
    and "Run_next e p w = Some (p', w')"
  shows "pc_ok call v p'"
proof (cases p)
  case (RStarted r)
  with assms show ?thesis
    by (auto simp: task_env_def answered_def client_sees_def FetchFunc_def split: sum.splits option.splits)
next
  case (RFetched r f)
  note f = assms(1)[unfolded RFetched] executeFunction_result[of v r f call]
  from assms(2) RFetched consider "e_python e = execute_py call" | err where "e_python e = (\<lambda>_. Inl err)"
    by (auto simp: task_env_def)
  then show ?thesis
  proof cases
    case 1
    with assms(4) RFetched f show ?thesis
      by (auto split: outcome.splits option.splits simp: executeFunction_def split: sum.splits)
  next
    case 2
    with assms(4) RFetched f show ?thesis by (auto simp: executeFunction_def)
  qed
qed (use assms in \<open>auto simp: Let_def split: if_splits sum.splits\<close>)

lemma Run_next_tasks_frame: "Run_next e p w = Some (p', w') \<Longrightarrow> tasks w' = tasks w"
  by (cases p) (auto simp: Let_def split: if_splits sum.splits outcome.splits option.splits prod.splits)

text \<open>One step of one object store, given what is new in it.\<close>

lemma los_okI:
  assumes "los_ok call v n L cop" "los_step prefix port L L'"
    and "objs_ok call v (srv L')" "localNodeID (srv L') = n"
    and "\<And>j cb ch. lfs L' j = LSends cb ch \<Longrightarrow> lfs L j = LSends cb ch \<or> cb_ok v cb"
    and "\<And>i req cb. gets L' i = GResumed req cb \<Longrightarrow> gets L i = GResumed req cb \<or> cb_ok v cb"
    and "\<And>i rep. cop' i = Some rep \<Longrightarrow> cop i = Some rep \<and> gets L' i = gets L i"
  shows "los_ok call v n L' cop'"
  unfolding los_ok_def
proof (intro conjI allI impI)
  note old = los_okD[OF assms(1)]
  show "objs_ok call v (srv L')" "localNodeID (srv L') = n" by fact+
  show "\<exists>own. chan_inv own L'" using old(3) chan_inv_step[OF assms(2)] by blast
  show "cb_ok v cb" if "lfs L' j = LSends cb ch" for j cb ch using assms(5)[OF that] old(4) by blast
  show "cb_ok v cb" if "gets L' i = GResumed req cb" for i req cb using assms(6)[OF that] old(5) by blast
  show "\<exists>req cb. gets L' i = GResumed req cb \<and> reply_ok call v (get_Uid req) rep" if "cop' i = Some rep" for i rep
    using assms(7)[OF that] assms(1)[unfolded los_ok_def] by metis
qed

lemma put_shared_grows:
  assumes "put_shared errs u bs s = (e, s')"
  shows "dom (los_objectSizes s) \<subseteq> dom (los_objectSizes s')" "localNodeID s' = localNodeID s"
    "e = None \<Longrightarrow> los_objectSizes s' u \<noteq> None"
  using put_shared_sizes(1)[OF assms] put_shared_frame(3)[of errs u bs s] assms by auto

text \<open>What a finishing \<open>Get\<close> did to its store.\<close>

lemma Get_resume_cases:
  assumes "Get_resume errs prefix port dialErr copied req cb s = (r, calls, s')"
  obtains (same) "s' = s" "\<And>m n. m \<notin># post (los_msg n) calls"
      "\<And>resp. r = (Some resp, None) \<Longrightarrow> gresp_Uid resp = get_Uid req \<and> \<not> gresp_Local resp \<and>
         (if get_Copy req then dialErr = None \<and> (\<exists>x. copied = (Some x, None) \<and> gresp_ObjectBytes resp = cpresp_ObjectBytes x)
          else gresp_ObjectBytes resp = [])"
  | (cached) x e where "get_Copy req" "dialErr = None" "copied = (Some x, None)"
      "put_shared errs (get_Uid req) (cpresp_ObjectBytes x) s = (e, s')"
      "\<And>m n. m \<in># post (los_msg n) calls \<Longrightarrow>
         e = None \<and> m = MNotify \<lparr>no_Uid = lf_Uid cb, no_NodeId = localNodeID s, no_ObjectSize = 0\<rparr>"
      "\<And>resp. r = (Some resp, None) \<Longrightarrow> gresp_Uid resp = get_Uid req \<and> \<not> gresp_Local resp \<and>
         gresp_ObjectBytes resp = cpresp_ObjectBytes x"
proof (cases "get_Copy req \<and> dialErr = None \<and> get_Cache req \<and> (\<exists>x. copied = (Some x, None))")
  case True
  then obtain x where x: "get_Copy req" "dialErr = None" "get_Cache req" "copied = (Some x, None)" by blast
  obtain e s1 where p: "put_shared errs (get_Uid req) (cpresp_ObjectBytes x) s = (e, s1)" by fastforce
  show ?thesis
    by (rule cached[OF x(1,2,4), of e])
      (use assms x p in \<open>auto simp: Get_resume_def Let_def split: option.splits if_splits\<close>)
next
  case False
  show ?thesis
    by (rule same)
      (use assms False in \<open>auto simp: Get_resume_def Let_def split: if_splits option.splits prod.splits\<close>)
qed

section \<open>Every step keeps the invariant\<close>

text \<open>A step that changes one object store: it accounts for that store and for what it sent.\<close>

lemma cluster_inv_los:
  assumes "cluster_inv nc call rows c"
    and "c' = c\<lparr>c_los := (c_los c)(n := L), c_copied := (c_copied c)(n := cop), c_net := N, c_answers := as\<rparr>"
    and "dom (los_objectSizes (srv (c_los c n))) \<subseteq> dom (los_objectSizes (srv L))"
    and "\<And>v. v = world nc c' \<Longrightarrow> later (world nc c) v \<Longrightarrow> los_ok call v n (c_los c n) (c_copied c n) \<Longrightarrow>
           los_ok call v n L cop"
    and "\<And>m. m \<in># N \<Longrightarrow> m \<in># c_net c \<or> msg_ok (world nc c') m"
    and "\<And>a. a \<in> set as \<Longrightarrow> a \<in> set (c_answers c) \<or> answer_ok call (world nc c') a"
  shows "cluster_inv nc call rows c'"
proof -
  have "later (world nc c) (world nc (c\<lparr>c_los := (c_los c)(n := L)\<rparr>))" by (rule world_los_later) fact
  then have l: "later (world nc c) (world nc c')" by (simp add: assms(2))
  show ?thesis
  proof (rule cluster_invI[OF assms(1) l])
    show "(c_los c' k = c_los c k \<and> c_copied c' k = c_copied c k) \<or>
        los_ok call (world nc c') k (c_los c' k) (c_copied c' k)" for k
      using assms(4)[OF refl l] los_ok_later[OF l cluster_invD(5)[OF assms(1)]] by (simp add: assms(2))
  qed (use assms(5,6) in \<open>simp_all add: assms(2)\<close>)
qed

text \<open>The same for a step of the store's own relation.\<close>

lemma cluster_inv_los_step:
  assumes inv: "cluster_inv nc call rows c" and step: "los_step prefix port (c_los c n) L"
    and c': "c' = c\<lparr>c_los := (c_los c)(n := L), c_copied := (c_copied c)(n := cop), c_net := N, c_answers := as\<rparr>"
    and grow: "dom (los_objectSizes (srv (c_los c n))) \<subseteq> dom (los_objectSizes (srv L))"
    and objs: "\<And>v. later (world nc c) v \<Longrightarrow> objs_ok call v (srv (c_los c n)) \<Longrightarrow> objs_ok call v (srv L)"
    and node: "localNodeID (srv L) = localNodeID (srv (c_los c n))"
    and lfs: "\<And>j cb ch. lfs L j = LSends cb ch \<Longrightarrow> lfs (c_los c n) j = LSends cb ch \<or> cb_ok (world nc c) cb"
    and gets: "\<And>i req cb. gets L i = GResumed req cb \<Longrightarrow> gets (c_los c n) i = GResumed req cb \<or> cb_ok (world nc c) cb"
    and cop: "\<And>i. cop i = None \<or> cop i = c_copied c n i \<and>
          (gets L i = gets (c_los c n) i \<or> (\<forall>req cb. gets (c_los c n) i \<noteq> GResumed req cb))"
    and net: "\<And>m. m \<in># N \<Longrightarrow> m \<in># c_net c \<or> msg_ok (world nc c') m"
    and as: "\<And>a. a \<in> set as \<Longrightarrow> a \<in> set (c_answers c) \<or> answer_ok call (world nc c') a"
  shows "cluster_inv nc call rows c'"
proof (rule cluster_inv_los[OF inv c' grow _ net as])
  fix v assume v: "later (world nc c) v" and ok: "los_ok call v n (c_los c n) (c_copied c n)"
  show "los_ok call v n L cop"
  proof (rule los_okI[OF ok step])
    show "objs_ok call v (srv L)" by (rule objs[OF v los_okD(1)[OF ok]])
    show "localNodeID (srv L) = n" using node los_okD(2)[OF ok] by simp
    show "lfs (c_los c n) j = LSends cb ch \<or> cb_ok v cb" if "lfs L j = LSends cb ch" for j cb ch
      using lfs[OF that] cb_ok_later[OF v] by blast
    show "gets (c_los c n) i = GResumed req cb \<or> cb_ok v cb" if "gets L i = GResumed req cb" for i req cb
      using gets[OF that] cb_ok_later[OF v] by blast
    show "c_copied c n i = Some rep \<and> gets L i = gets (c_los c n) i" if "cop i = Some rep" for i rep
      using cop[of i] that los_okD(7)[OF ok, of i] by auto
  qed
qed

lemma inv_stores:
  assumes inv: "cluster_inv nc call rows c" and n: "n \<in> nc_nodes nc"
    and t: "tasks (c_worker c n) = add_mset (RStoring req out) M"
    and len: "length out \<le> max_recv GetServerOptions"
    and st: "Store errs \<lparr>st_Uid = run_Uid req, st_ObjectBytes = out\<rparr> (srv (c_los c n)) = (r, calls, srv')"
    and nx: "Run_next e (RStoring req out) (c_worker c n) = Some (p', w')"
  shows "cluster_inv nc call rows (c\<lparr>c_worker := (c_worker c)(n := w'\<lparr>tasks := add_mset p' M\<rparr>),
         c_los := (c_los c)(n := (c_los c n)\<lparr>srv := srv'\<rparr>), c_net := c_net c + post (los_msg n) calls\<rparr>)"
    (is "cluster_inv nc call rows ?c'")
proof -
  let ?w = "c\<lparr>c_worker := (c_worker c)(n := w'\<lparr>tasks := add_mset p' M\<rparr>)\<rparr>"
  have p': "pc_ok call v p'" for v using nx by (auto simp: Let_def split: sum.splits)
  have w: "cluster_inv nc call rows ?w"
    by (rule cluster_invI[OF inv]) (use t p' in \<open>auto split: if_splits\<close>)
  obtain x where put: "put_shared errs (run_Uid req) out (srv (c_los c n)) = (x, srv')"
    and calls: "calls = (if x = None then [CallNotifyOwns \<lparr>no_Uid = run_Uid req, no_NodeId = localNodeID (srv (c_los c n)),
        no_ObjectSize = of_nat (length out)\<rparr>] else [])"
    using st by (auto simp: Store_def split: prod.splits option.splits)
  note g = put_shared_grows[OF put]
  have res: "run_Uid req \<noteq> 0 \<Longrightarrow> task_result call (world nc c) (run_Uid req) = Some out"
    using cluster_invD(4)[OF inv, of "RStoring req out" n] t by simp
  have node: "localNodeID (srv (c_los c n)) = n" using los_okD(2)[OF cluster_invD(5)[OF inv]] .
  show ?thesis
  proof (rule cluster_inv_los_step[OF w, where n = n and L = "(c_los c n)\<lparr>srv := srv'\<rparr>" and cop = "c_copied c n"
        and N = "c_net c + post (los_msg n) calls" and as = "c_answers c" and prefix = "[]" and port = 0])
    show "los_step [] 0 (c_los ?w n) ((c_los c n)\<lparr>srv := srv'\<rparr>)" using los_step.store[OF st] by simp
    show "objs_ok call v (srv ((c_los c n)\<lparr>srv := srv'\<rparr>))"
      if "later (world nc ?w) v" "objs_ok call v (srv (c_los ?w n))" for v
      using put_shared_ok_objs[OF put, of call v] that res task_result_later[of "world nc c" v call] len by simp
    show "m \<in># c_net ?w \<or> msg_ok (world nc ?c') m" if "m \<in># c_net c + post (los_msg n) calls" for m
      using that calls g(3) n node by (auto split: if_splits)
  qed (use g in auto)
qed

lemma inv_gets_now:
  assumes inv: "cluster_inv nc call rows c" and n: "n \<in> nc_nodes nc" and i: "gets (c_los c n) i = GIdle"
    and st: "Get_start req (srv (c_los c n)) = (Some r, calls, srv')"
  shows "cluster_inv nc call rows
    (c\<lparr>c_los := (c_los c)(n := (c_los c n)\<lparr>srv := srv', gets := (gets (c_los c n))(i := GDone r)\<rparr>),
       c_answers := c_answers c @ [(n, req, r)]\<rparr>)"
proof -
  let ?L = "(c_los c n)\<lparr>srv := srv', gets := (gets (c_los c n))(i := GDone r)\<rparr>"
  obtain sz where sz: "los_objectSizes (srv (c_los c n)) (get_Uid req) = Some sz" "srv' = srv (c_los c n)"
    "r = (Some \<lparr>gresp_Uid = get_Uid req, gresp_ObjectBytes = [], gresp_Local = True, gresp_Size = sz\<rparr>, None)"
    using st by (auto simp: Get_start_def split: option.splits)
  have ans: "answer_ok call (world nc c) (n, req, r)"
    using objs_okD[OF los_okD(1)[OF cluster_invD(5)[OF inv, of n]], of "get_Uid req"] sz n by (auto simp: holds_def)
  have w: "world nc (c\<lparr>c_los := (c_los c)(n := ?L)\<rparr>) = world nc c" by (rule world_los) (simp add: sz)
  show ?thesis
    by (rule cluster_inv_los_step[OF inv los_step.get_hit[OF i st], where cop = "c_copied c n" and N = "c_net c"
          and as = "c_answers c @ [(n, req, r)]"])
      (use sz(2) i ans w in \<open>auto split: if_splits simp del: answer_ok.simps\<close>)
qed

lemma inv_gets_later:
  assumes inv: "cluster_inv nc call rows c" and i: "gets (c_los c n) i = GIdle"
    and st: "Get_start req (srv (c_los c n)) = (None, calls, srv')"
  shows "cluster_inv nc call rows
    (c\<lparr>c_los := (c_los c)(n := (c_los c n)\<lparr>srv := srv', gets := (gets (c_los c n))(i := GCalled req)\<rparr>),
       c_net := c_net c + post (los_msg n) calls\<rparr>)"
proof -
  have s: "los_objectSizes srv' = los_objectSizes (srv (c_los c n))" "host srv' = host (srv (c_los c n))"
    "localNodeID srv' = localNodeID (srv (c_los c n))" "\<And>v m. m \<in># post (los_msg n) calls \<Longrightarrow> msg_ok v m"
    using st by (auto simp: Get_start_def split: option.splits if_splits)
  have o: "objs_ok call v srv' = objs_ok call v (srv (c_los c n))" for v
    by (rule objs_ok_cong) (simp_all add: s)
  show ?thesis
    by (rule cluster_inv_los_step[OF inv los_step.get_miss[OF i st], where cop = "c_copied c n"
          and N = "c_net c + post (los_msg n) calls" and as = "c_answers c"])
      (use s i o in \<open>auto split: if_splits\<close>)
qed

lemma inv_waits:
  assumes inv: "cluster_inv nc call rows c" and i: "gets (c_los c n) i = GCalled req"
    and ch: "localObjectChannels (srv (c_los c n)) (get_Uid req) = Some ch"
  shows "cluster_inv nc call rows
    (c\<lparr>c_los := (c_los c)(n := (c_los c n)\<lparr>gets := (gets (c_los c n))(i := GWaits req ch)\<rparr>)\<rparr>)"
  by (rule cluster_inv_los_step[OF inv los_step.get_wait[OF i ch], where cop = "c_copied c n" and N = "c_net c"
        and as = "c_answers c"]) (use i in \<open>auto split: if_splits\<close>)

lemma inv_finds:
  assumes inv: "cluster_inv nc call rows c" and N: "c_net c = add_mset (MLocation addr cb) N"
    and j: "lfs (c_los c n) j = LIdle"
  shows "cluster_inv nc call rows
    (c\<lparr>c_los := (c_los c)(n := (c_los c n)\<lparr>lfs := (lfs (c_los c n))
         (j := LSends cb (LocationFound_channel cb (srv (c_los c n))))\<rparr>), c_net := N\<rparr>)"
proof -
  have "cb_ok (world nc c) cb" using cluster_invD(1)[OF inv, of "MLocation addr cb"] N by simp
  then show ?thesis
    by (intro cluster_inv_los_step[OF inv los_step.lf_call[of "c_los c n" j _ _ cb, OF j], where cop = "c_copied c n"
          and N = N and as = "c_answers c"]) (auto simp: N split: if_splits)
qed

lemma inv_meets:
  assumes inv: "cluster_inv nc call rows c" and i: "gets (c_los c n) i = GWaits req ch"
    and j: "lfs (c_los c n) j = LSends cb (Some ch)"
  shows "cluster_inv nc call rows
    (c\<lparr>c_los := (c_los c)(n := (c_los c n)\<lparr>gets := (gets (c_los c n))(i := GResumed req cb),
         lfs := (lfs (c_los c n))(j := LDone)\<rparr>)\<rparr>)"
proof -
  have "cb_ok (world nc c) cb" using los_okD(4)[OF cluster_invD(5)[OF inv] j] .
  then show ?thesis
    by (intro cluster_inv_los_step[OF inv los_step.handover[OF i j], where cop = "c_copied c n" and N = "c_net c"
          and as = "c_answers c"]) (use i in \<open>auto split: if_splits\<close>)
qed

lemma cluster_inv_down [simp]: "cluster_inv nc call rows (c\<lparr>c_down := d\<rparr>) = cluster_inv nc call rows c"
  by (simp add: cluster_inv_def)

lemma inv_reply:
  assumes inv: "cluster_inv nc call rows c" and i: "gets (c_los c n) i = GResumed req cb"
    and rep: "reply_ok call (world nc c) (get_Uid req) rep"
  shows "cluster_inv nc call rows (c\<lparr>c_copied := (c_copied c)(n := (c_copied c n)(i \<mapsto> rep))\<rparr>)"
proof -
  have "los_ok call (world nc c) n (c_los c n) ((c_copied c n)(i \<mapsto> rep))"
    using cluster_invD(5)[OF inv, of n] i rep by (auto simp: los_ok_def)
  then show ?thesis by (intro cluster_invI[OF inv]) auto
qed

lemma inv_copies:
  assumes inv: "cluster_inv nc call rows c" and i: "gets (c_los c n) i = GResumed req cb"
    and cp: "Copy errs \<lparr>cp_Uid = lf_Uid cb, cp_Requester = q\<rparr> (srv (c_los c k)) = (out, srv')"
    and a: "answer = (case out of Return r \<Rightarrow> client_sees r | _ \<Rightarrow> Inl (StatusError Internal txt))"
  shows "cluster_inv nc call rows (c\<lparr>c_los := (c_los c)(k := (c_los c k)\<lparr>srv := srv'\<rparr>),
         c_copied := (c_copied c)(n := (c_copied c n)(i \<mapsto> (None, stub_ret answer))), c_down := d\<rparr>)"
proof -
  note f = Copy_frame[OF cp]
  let ?c1 = "c\<lparr>c_los := (c_los c)(k := (c_los c k)\<lparr>srv := srv'\<rparr>)\<rparr>"
  have o: "objs_ok call v srv' = objs_ok call v (srv (c_los c k))" for v by (rule objs_ok_cong) (simp_all add: f)
  have 1: "cluster_inv nc call rows ?c1"
    by (rule cluster_inv_los_step[OF inv los_step.copy[OF cp], where cop = "c_copied c k" and N = "c_net c"
          and as = "c_answers c"]) (use f o in auto)
  have w: "world nc ?c1 = world nc c" by (rule world_los) (simp add: f)
  have u: "lf_Uid cb = get_Uid req" using los_okD(5)[OF cluster_invD(5)[OF inv] i] by blast
  have "reply_ok call (world nc c) (get_Uid req) (None, stub_ret answer)"
  proof (cases "get_Uid req \<noteq> 0 \<and> los_objectSizes (srv (c_los c k)) (get_Uid req) \<noteq> None")
    case True
    then obtain bs where bs: "task_result call (world nc c) (get_Uid req) = Some bs" "holds (srv (c_los c k)) (get_Uid req) bs"
      using objs_okD[OF los_okD(1)[OF cluster_invD(5)[OF inv]]] by blast
    from Copy_holds(1)[OF bs(2) _ cp] u show ?thesis
      using bs a by (auto simp: reply_ok_def stub_ret_def client_sees_def holds_def)
  next
    case False
    then show ?thesis using cp a u
      by (auto simp: reply_ok_def stub_ret_def client_sees_def Copy_def)
  qed
  moreover have "gets (c_los ?c1 n) i = GResumed req cb" using i by auto
  ultimately show ?thesis using inv_reply[OF 1, of n i req cb "(None, stub_ret answer)"] w by simp
qed

lemma inv_finishes:
  assumes inv: "cluster_inv nc call rows c" and n: "n \<in> nc_nodes nc" and i: "gets (c_los c n) i = GResumed req cb"
    and cop: "get_Copy req \<Longrightarrow> c_copied c n i = Some (dialErr, copied)"
    and fin: "Get_resume errs prefix port dialErr copied req cb (srv (c_los c n)) = (r, calls, srv')"
  shows "cluster_inv nc call rows
    (c\<lparr>c_los := (c_los c)(n := (c_los c n)\<lparr>srv := srv', gets := (gets (c_los c n))(i := GDone r)\<rparr>),
       c_copied := (c_copied c)(n := (c_copied c n)(i := None)),
       c_net := c_net c + post (los_msg n) calls, c_answers := c_answers c @ [(n, req, r)]\<rparr>)"
    (is "cluster_inv nc call rows ?c'")
proof -
  note ok = cluster_invD(5)[OF inv, of n]
  let ?L = "(c_los c n)\<lparr>srv := srv', gets := (gets (c_los c n))(i := GDone r)\<rparr>"
  have u: "lf_Uid cb = get_Uid req" and node: "localNodeID (srv (c_los c n)) = n"
    using los_okD(5)[OF ok i] los_okD(2)[OF ok] by blast+
  have rep: "get_Copy req \<Longrightarrow> reply_ok call (world nc c) (get_Uid req) (dialErr, copied)"
    using los_okD(6)[OF ok i] cop by blast
  note step = cluster_inv_los_step[OF inv los_step.get_end[OF i fin], where cop = "(c_copied c n)(i := None)"
      and N = "c_net c + post (los_msg n) calls" and as = "c_answers c @ [(n, req, r)]", OF refl]
  from fin show ?thesis
  proof (cases rule: Get_resume_cases)
    case same
    have "world nc (c\<lparr>c_los := (c_los c)(n := ?L)\<rparr>) = world nc c" by (rule world_los) (simp add: same)
    then have "answer_ok call (world nc ?c') (n, req, r)" using same(3) rep
      by (cases "(call, world nc ?c', n, req, r)" rule: answer_ok.cases) (auto simp: reply_ok_def)
    with same(1,2) show ?thesis by (intro step) (auto split: if_splits)
  next
    case (cached x e)
    note g = put_shared_grows[OF cached(4)]
    have res: "get_Uid req \<noteq> 0 \<Longrightarrow> task_result call (world nc c) (get_Uid req) = Some (cpresp_ObjectBytes x) \<and>
        length (cpresp_ObjectBytes x) \<le> max_recv GetServerOptions"
      using rep[OF cached(1)] cached(2,3) by (auto simp: reply_ok_def)
    have l: "later (world nc c) (world nc ?c')"
      using world_los_later[of c n ?L nc] g(1) by simp
    have ans: "answer_ok call (world nc ?c') (n, req, r)" using cached(1,6) res task_result_later[OF l]
      by (cases "(call, world nc ?c', n, req, r)" rule: answer_ok.cases) auto
    have msg: "msg_ok (world nc ?c') m" if "m \<in># post (los_msg n) calls" for m
      using cached(5)[OF that] g(3) n node u by auto
    show ?thesis
    proof (rule step)
      show "objs_ok call v (srv ?L)" if "later (world nc c) v" "objs_ok call v (srv (c_los c n))" for v
        using put_shared_ok_objs[OF cached(4), of call v] that res task_result_later[of "world nc c" v call] by simp
    qed (use g ans msg in \<open>auto split: if_splits\<close>)
  qed
qed

lemma inv_registers:
  assumes inv: "cluster_inv nc call rows c" and r: "RegisterFunc src req (c_ft c) = (r, ft')"
    and new: "\<And>name. generateUID src = Inr name \<Longrightarrow> functionStore (c_ft c) name = None"
  shows "cluster_inv nc call rows (c\<lparr>c_ft := ft'\<rparr>)"
proof -
  have "later (world nc c) (world nc (c\<lparr>c_ft := ft'\<rparr>))"
    using RegisterFunc_later[OF r new] by (simp add: later_def world_def)
  then show ?thesis by (intro cluster_invI[OF inv]) auto
qed

lemma inv_submits:
  assumes inv: "cluster_inv nc call rows c" and new: "c_tasks c (TruncateHighBit r) = None"
    and s: "ls_Schedule r st req (c_ls c n) = (out, calls, bg)"
  shows "cluster_inv nc call rows (c\<lparr>c_tasks := (c_tasks c)(TruncateHighBit r \<mapsto> req),
    c_net := c_net c + post (ls_msg nc n) (calls @ bg), c_down := d\<rparr>)" (is "cluster_inv nc call rows ?c'")
proof -
  have "later (world nc c) (world nc ?c')" using new by (auto simp: later_def world_def map_le_def)
  moreover have "msg_ok (world nc ?c') m" if "m \<in># post (ls_msg nc n) (calls @ bg)" for m
    by (rule ls_Schedule_ok[OF s _ that]) (simp add: world_def)
  ultimately show ?thesis by (intro cluster_invI[OF inv]) auto
qed

lemma inv_places:
  assumes inv: "cluster_inv nc call rows c" and N: "c_net c = add_mset (MSchedule req) N"
    and s: "gs_Schedule prefix port (getBestWorker clock keys locations us flag uids gs seen) dialErr result req = (out, calls)"
  shows "cluster_inv nc call rows (c\<lparr>c_net := N + post gs_msg calls, c_down := d\<rparr>)"
proof -
  have "sched_ok (world nc c) req" using cluster_invD(1)[OF inv, of "MSchedule req"] N by simp
  then have "msg_ok (world nc c) m" if "m \<in># post gs_msg calls" for m
    using gs_Schedule_ok[OF s _ getBestWorker_silent that] by blast
  then show ?thesis by (intro cluster_invI[OF inv]) (auto simp: N)
qed

lemma inv_goes:
  assumes inv: "cluster_inv nc call rows c" and G: "c_gos c = add_mset go G"
  shows "cluster_inv nc call rows (c\<lparr>c_gos := G, c_net := c_net c + post gcs_msg (run_go dialErr go (c_gcs c))\<rparr>)"
proof -
  have "msg_ok (world nc c) m" if "m \<in># post gcs_msg (run_go dialErr go (c_gcs c))" for m
    using run_go_ok[OF cluster_invD(3)[OF inv] _ that] cluster_invD(2)[OF inv, of go] G by simp
  then show ?thesis by (intro cluster_invI[OF inv]) (auto simp: G)
qed

lemma inv_runs:
  assumes inv: "cluster_inv nc call rows c" and N: "c_net c = add_mset (MRun addr req) N"
    and e: "Run_enter req (c_worker c n) = (p, w')"
  shows "cluster_inv nc call rows
    (c\<lparr>c_worker := (c_worker c)(n := w'\<lparr>tasks := add_mset p (tasks (c_worker c n))\<rparr>), c_net := N\<rparr>)"
proof -
  have "run_ok (world nc c) req" using cluster_invD(1)[OF inv, of "MRun addr req"] N by simp
  with N e show ?thesis by (intro cluster_invI[OF inv]) (auto simp: Run_enter_def split: if_splits)
qed

lemma inv_works:
  assumes inv: "cluster_inv nc call rows c" and M: "tasks (c_worker c n) = add_mset p M"
    and e: "task_env call (c_ft c) p e" "Run_next e p (c_worker c n) = Some (p', w')"
  shows "cluster_inv nc call rows (c\<lparr>c_worker := (c_worker c)(n := w'\<lparr>tasks := add_mset p' M\<rparr>)\<rparr>)"
proof -
  have "pc_ok call (world nc c) p" using cluster_invD(4)[OF inv, of p n] M by simp
  then have "pc_ok call (world nc c) p'"
    by (rule Run_next_ok[OF _ e(1) _ e(2)]) (simp add: world_def)
  with M show ?thesis by (intro cluster_invI[OF inv]) (auto split: if_splits)
qed

text \<open>Steps that touch only what the invariant does not look at.\<close>

lemma inv_switches:
  assumes "cluster_inv nc call rows c"
  shows "cluster_inv nc call rows (c\<lparr>c_ls := (c_ls c)(n := snd (ls_KillServer (c_ls c n)))\<rparr>)"
    "cluster_inv nc call rows (c\<lparr>c_ls := (c_ls c)(n := snd (ls_ReviveServer (c_ls c n)))\<rparr>)"
    "cluster_inv nc call rows (c\<lparr>c_worker := (c_worker c)(n := snd (w_KillServer (c_worker c n)))\<rparr>)"
    "cluster_inv nc call rows (c\<lparr>c_worker := (c_worker c)(n := snd (w_ReviveServer (c_worker c n)))\<rparr>)"
  by (intro cluster_invI[OF assms];
      auto simp: ls_KillServer_def ls_ReviveServer_def w_KillServer_def w_ReviveServer_def split: if_splits)+

lemma inv_posts:
  assumes "cluster_inv nc call rows c"
  shows "cluster_inv nc call rows (c\<lparr>c_net := add_mset (MBeat hb) (c_net c)\<rparr>)"
    "cluster_inv nc call rows (c\<lparr>c_net := c_net c + post gs_msg (SendLiveNodes clock ks gs)\<rparr>)"
    "c_net c = add_mset m N \<Longrightarrow> cluster_inv nc call rows (c\<lparr>c_net := N\<rparr>)"
    "c_net c = add_mset m N \<Longrightarrow> cluster_inv nc call rows (c\<lparr>c_gs := gs, c_net := N\<rparr>)"
  by (intro cluster_invI[OF assms]; auto simp: SendLiveNodes_def Let_def)+

context sqlite
begin

lemma inv_gcs_handles:
  assumes inv: "cluster_inv nc call rows c" and N: "c_net c = add_mset m N" and op: "gcs_accepts nc m op"
    and ex: "gcs_legal op (c_gcs c)" "gcs_exec drv port op (c_gcs c) = (gos, g')"
  shows "cluster_inv nc call rows (c\<lparr>c_gcs := g', c_gos := c_gos c + mset gos, c_net := N\<rparr>)"
proof -
  have "msg_ok (world nc c) m" using cluster_invD(1)[OF inv] N by simp
  then have "gcs_ok rows (world nc c) g' \<and> (\<forall>go \<in> set gos. go_ok (world nc c) go)"
    using op by (intro gcs_exec_ok[OF cluster_invD(3)[OF inv] ex]) (cases m; auto)+
  then show ?thesis by (intro cluster_invI[OF inv]) (auto simp: N)
qed

lemma inv_flushes:
  assumes inv: "cluster_inv nc call rows c" and ex: "gcs_legal (OpFlush ks ks') (c_gcs c)"
    "gcs_exec drv port (OpFlush ks ks') (c_gcs c) = (gos, g')"
  shows "cluster_inv nc call rows (c\<lparr>c_gcs := g'\<rparr>)"
proof -
  have "gcs_ok rows (world nc c) g'" using gcs_exec_ok[OF cluster_invD(3)[OF inv] ex] by simp
  then show ?thesis by (intro cluster_invI[OF inv]) auto
qed

lemma cluster_step_inv:
  assumes "cluster_step nc drv call c c'" "cluster_inv nc call rows c"
  shows "cluster_inv nc call rows c'"
  using assms
proof (induction rule: cluster_step.induct)
  case (registers src req c r ft')
  then show ?case by (intro inv_registers) auto
next
  case (submits n c st r req out calls bg)
  then show ?case by (intro inv_submits) auto
next
  case (places c req N keys locations us clock seen dialErr result out calls)
  then show ?case by (intro inv_places)
next
  case (gcs_handles c m N op gos g')
  then show ?case by (intro inv_gcs_handles)
next
  case (flushes ks ks' c gos g')
  then show ?case by (intro inv_flushes)
next
  case (copies n k c i req cb errs out srv' answer)
  then show ?case by (intro inv_copies) auto
next
  case (copy_fails n c i req cb dialErr e)
  then show ?case by (intro inv_reply) (auto simp: reply_ok_def)
qed (simp_all add: inv_goes inv_runs inv_works inv_switches inv_posts inv_stores inv_gets_now inv_gets_later
    inv_waits inv_finds inv_meets inv_finishes)

end

sublocale sqlite \<subseteq> cl: step_invariant "cluster_step nc drv call" "cluster_inv nc call rows" for nc call
  by unfold_locales (rule cluster_step_inv)

context sqlite
begin

lemma cluster_steps_inv:
  "cluster_steps nc drv call c c' \<Longrightarrow> cluster_inv nc call rows c \<Longrightarrow> cluster_inv nc call rows c'"
  by (rule cl.steps_inv)

end

text \<open>A cluster that has just started, on whatever machines, with an empty table of locations.\<close>

lemma new_cluster_inv:
  assumes "NewGCSObjServer drv opened sec = Return g" "rows (database g) = {}"
  shows "cluster_inv nc call rows (new_cluster g ms)"
proof -
  have "lineage g = Map.empty" "objectLocations g = Map.empty"
    using assms(1) by (auto simp: NewGCSObjServer_def Let_def split: sum.splits if_splits)
  then have "gcs_ok rows (world nc (new_cluster g ms)) g" using assms(2) by (simp add: gcs_ok_def)
  moreover have "los_ok call v n (los_start (new_los n m)) (\<lambda>_. None)" for v n m
    by (auto simp: los_ok_def los_start_def new_los_def objs_ok_def chan_inv_def)
  ultimately show ?thesis by (simp add: cluster_inv_def new_cluster_def new_worker_def)
qed

text \<open>The reachable states of a cluster, with the database behaving as SQLite does.\<close>

definition cluster_reachable ::
  "wiring \<Rightarrow> 'db sql_driver \<Rightarrow> (bytes \<Rightarrow> bytes \<Rightarrow> bytes \<Rightarrow> string \<times> (string + bytes)) \<Rightarrow>
     ('db \<Rightarrow> (u64 \<times> u64) set) \<Rightarrow> 'db cluster \<Rightarrow> bool" where
  "cluster_reachable nc drv call rows c \<longleftrightarrow>
     (\<exists>opened sec g ms. NewGCSObjServer drv opened sec = Return g \<and> rows (database g) = {} \<and>
        cluster_steps nc drv call (new_cluster g ms) c)"

lemma cluster_reachable_inv:
  assumes "sqlite drv rows saved" "cluster_reachable nc drv call rows c"
  shows "cluster_inv nc call rows c"
proof -
  obtain opened sec g ms where n: "NewGCSObjServer drv opened sec = Return g" "rows (database g) = {}"
    and s: "cluster_steps nc drv call (new_cluster g ms) c"
    using assms(2) by (auto simp: cluster_reachable_def)
  show ?thesis by (rule sqlite.cluster_steps_inv[OF assms(1) s new_cluster_inv[OF n(1)], OF n(2)])
qed

lemma cluster_reachable_steps:
  "cluster_reachable nc drv call rows c \<Longrightarrow> cluster_steps nc drv call c c' \<Longrightarrow> cluster_reachable nc drv call rows c'"
  unfolding cluster_reachable_def by (meson rtranclp_trans)

end
