(* ===== verification/Cluster_Run.thy ===== *)
theory Cluster_Run
  imports Cluster_Inv Worker_Node_Props
begin

text \<open>
  That the system can do its work: from every reachable state with a free worker, a task can be
  submitted, run and its result delivered to a client that waits for it, wherever that client is. Each phase is
  a sequence of steps of the cluster; the state it ends in is given by the fields it changes.
\<close>

lemma step_to: "cluster_step nc drv call c x \<Longrightarrow> x = c' \<Longrightarrow> cluster_step nc drv call c c'"
  by simp

section \<open>Submitting\<close>

definition run_of :: "u64 \<Rightarrow> ScheduleRequest \<Rightarrow> RunRequest" where
  "run_of uid t = \<lparr>run_Uid = uid, run_Name = sr_Name t, run_Args = sr_Args t, run_Kwargs = sr_Kwargs t\<rparr>"

lemma can_submit:
  assumes "n \<in> nc_nodes nc" "PLocalSched n \<notin> c_down c" "sr_NodeId t = 0"
    and "numRunningTasks (c_worker c n) < 10" "c_tasks c (TruncateHighBit r) = None" "uid = TruncateHighBit r"
  shows "cluster_step nc drv call c (c\<lparr>c_tasks := (c_tasks c)(uid \<mapsto> t),
    c_net := add_mset (MRun (worker_addr nc n) (run_of uid t)) (add_mset (MLineage (global_request uid t))
      (add_mset (MGenerating \<lparr>gen_Uid = uid, gen_NodeId = ls_localNodeID (c_ls c n)\<rparr>) (c_net c)))\<rparr>)"
proof -
  let ?st = "client_sees (WorkerStatus (c_worker c n))"
  obtain out calls bg where s: "ls_Schedule r ?st t (c_ls c n) = (out, calls, bg)" by (metis prod_cases3)
  then have "out = Return (Some \<lparr>sresp_Uid = uid\<rparr>, None)" "calls = [CallRegisterLineage (global_request uid t), CallWorkerStatus]"
    "bg = [CallRegisterGenerating \<lparr>gen_Uid = uid, gen_NodeId = ls_localNodeID (c_ls c n)\<rparr>, CallRun (run_of uid t)]"
    using assms by (auto simp: ls_Schedule_def client_sees_def WorkerStatus_def MAX_TASKS_def run_of_def Let_def)
  then show ?thesis
    using cluster_step.submits[OF assms(1,2) _ assms(5) s, where drv = drv and call = call] assms(6)
    by (simp add: answered_def ended_def add_mset_commute)
qed

section \<open>Waiting\<close>

context sqlite_available
begin

lemma can_wait:
  assumes m: "m \<in> nc_nodes nc" "PObjStore m \<notin> c_down c" and i: "gets (c_los c m) i = GIdle"
    and new: "los_objectSizes (srv (c_los c m)) (get_Uid req) = None" "locs rows (c_gcs c) (get_Uid req) = {}"
    and req: "\<not> get_Testing req" "get_Uid req < 2 ^ 63"
  shows "\<exists>L g ch. cluster_steps nc drv call c (c\<lparr>c_gcs := g, c_los := (c_los c)(m := L)\<rparr>) \<and>
    gets L i = GWaits req ch \<and> localObjectChannels (srv L) (get_Uid req) = Some ch \<and> lfs L = lfs (c_los c m) \<and>
    avgBandwidth (srv L) = avgBandwidth (srv (c_los c m)) \<and>
    client_addr nc m \<in> set (lookup_list (waitlist g) (get_Uid req)) \<and> lineage g = lineage (c_gcs c) \<and>
    generating g = generating (c_gcs c) \<and> objectLocations g = (objectLocations (c_gcs c))(get_Uid req \<mapsto> [])"
proof -
  let ?rl = "\<lparr>rl_Uid = get_Uid req, rl_Requester = localNodeID (srv (c_los c m))\<rparr>"
  obtain s1 where g1: "Get_start req (srv (c_los c m)) = (None, [CallRequestLocation ?rl], s1)"
    and ch: "localObjectChannels s1 (get_Uid req) = Some (next_chan (srv (c_los c m)))"
      "avgBandwidth s1 = avgBandwidth (srv (c_los c m))"
    using new req by (simp add: Get_start_def)
  let ?ch = "next_chan (srv (c_los c m))"
  let ?L1 = "(c_los c m)\<lparr>srv := s1, gets := (gets (c_los c m))(i := GCalled req)\<rparr>"
  let ?L2 = "?L1\<lparr>gets := (gets (c_los c m))(i := GWaits req ?ch)\<rparr>"
  let ?c1 = "c\<lparr>c_los := (c_los c)(m := ?L1), c_net := add_mset (MRequest m ?rl) (c_net c)\<rparr>"
  let ?c2 = "c\<lparr>c_los := (c_los c)(m := ?L2), c_net := add_mset (MRequest m ?rl) (c_net c)\<rparr>"
  obtain g where g: "gcs_exec drv (nc_los_port nc) (OpRequest 0 (Some (nc_peer nc m)) ?rl) (c_gcs c) = ([], g)"
    "client_addr nc m \<in> set (lookup_list (waitlist g) (get_Uid req))" "lineage g = lineage (c_gcs c)"
    "generating g = generating (c_gcs c)" "objectLocations g = (objectLocations (c_gcs c))(get_Uid req \<mapsto> [])"
    using RequestLocation_unknown[of "c_gcs c" ?rl 0 "nc_los_port nc" "nc_peer nc m"] new(2) req(2)
    by (auto simp: client_addr_def)
  have "cluster_step nc drv call c ?c1"
    by (rule step_to[OF cluster_step.gets_later[OF m i g1]]) simp
  moreover have "cluster_step nc drv call ?c1 ?c2"
    by (rule step_to[OF cluster_step.waits[of m nc ?c1 i req ?ch]]) (use m ch in \<open>auto intro: cluster.equality\<close>)
  moreover have "cluster_step nc drv call ?c2 (c\<lparr>c_gcs := g, c_los := (c_los c)(m := ?L2)\<rparr>)"
    by (rule step_to[OF cluster_step.gcs_handles[of ?c2 "MRequest m ?rl" "c_net c" nc
            "OpRequest 0 (Some (nc_peer nc m)) ?rl"]])
      (use g(1) in \<open>auto intro: cluster.equality\<close>)
  ultimately have "cluster_steps nc drv call c (c\<lparr>c_gcs := g, c_los := (c_los c)(m := ?L2)\<rparr>)" by simp
  then show ?thesis using g(2-5) ch by (intro exI[of _ ?L2] exI[of _ g] exI[of _ ?ch]) simp
qed

end

section \<open>Running\<close>

lemma can_work:
  assumes "n \<in> nc_nodes nc" "fatal w = None" "tasks w = add_mset p M" "task_env call (c_ft c) p e"
    and "Run_next e p w = Some (p', w')"
  shows "cluster_step nc drv call (c\<lparr>c_worker := (c_worker c)(n := w)\<rparr>)
    (c\<lparr>c_worker := (c_worker c)(n := w'\<lparr>tasks := add_mset p' M\<rparr>)\<rparr>)"
  using cluster_step.works[of n nc "c\<lparr>c_worker := (c_worker c)(n := w)\<rparr>" p M call e p' w' drv] assms by simp

text \<open>A task that found a free slot runs up to the point where it stores its result.\<close>

lemma can_execute:
  assumes n: "n \<in> nc_nodes nc" and w: "fatal w = None" "semaphore w < 10" "w_alive w" "tasks w = add_mset (RQueued rr) M"
    and f: "functionStore (c_ft c) (run_Name rr) = Some f"
    and out: "executeFunction (execute_py call) f (run_Args rr) (run_Kwargs rr) = Return (Some out, None)"
  shows "\<exists>w'. cluster_steps nc drv call (c\<lparr>c_worker := (c_worker c)(n := w)\<rparr>) (c\<lparr>c_worker := (c_worker c)(n := w')\<rparr>) \<and>
    fatal w' = None \<and> tasks w' = add_mset (RStoring rr out) M"
proof -
  let ?e = "\<lparr>e_fetch = Inr \<lparr>feresp_SerializedFunc = f\<rparr>, e_python = execute_py call, e_store = Inl (PlainError []), e_elapsed = 0\<rparr>"
  let ?c = "\<lambda>w. c\<lparr>c_worker := (c_worker c)(n := w)\<rparr>"
  let ?R = "cluster_steps nc drv call"
  have env: "task_env call (c_ft c) p ?e" if "p \<in> {RQueued rr, RAcquired rr, RStarted rr, RFetched rr f, RExecuted rr out}" for p
    using that f by (auto simp: task_env_def answered_def client_sees_def FetchFunc_def)
  have step: "\<exists>w'. ?R (?c u) (?c w') \<and> fatal w' = None \<and> tasks w' = add_mset (RStoring rr out) M"
    if "fatal u = None" "tasks u = add_mset p M" "task_env call (c_ft c) p ?e" "Run_next ?e p u = Some (p', u')"
      "\<exists>w'. ?R (?c (u'\<lparr>tasks := add_mset p' M\<rparr>)) (?c w') \<and> fatal w' = None \<and> tasks w' = add_mset (RStoring rr out) M"
    for u p p' u'
    using can_work[OF n that(1-4), of drv] that(5) by (blast intro: converse_rtranclp_into_rtranclp)
  show ?thesis
    apply (rule step[OF w(1,4) env], simp)
     apply (use w in \<open>simp add: MAX_CONCURRENT_TASKS_def\<close>)
    apply (rule step[OF _ _ env], use w in simp, simp, simp, simp)
    apply (rule step[OF _ _ env], use w in simp, simp, simp, simp)
    apply (rule step[OF _ _ env], use w in simp, simp, simp, simp add: out)
    apply (rule step[OF _ _ env], use w in simp, simp, simp, use w in simp)
    apply (rule exI, rule conjI, rule rtranclp.rtrancl_refl)
    using w(1) by simp
qed

text \<open>From the request to the stored object and its announcement.\<close>

lemma can_run:
  assumes n: "n \<in> nc_nodes nc" "PObjStore n \<notin> c_down c" and net: "c_net c = add_mset (MRun (worker_addr nc n) rr) N"
    and w: "fatal (c_worker c n) = None" "semaphore (c_worker c n) < 10" "w_alive (c_worker c n)"
    and f: "functionStore (c_ft c) (run_Name rr) = Some f"
    and out: "executeFunction (execute_py call) f (run_Args rr) (run_Kwargs rr) = Return (Some out, None)"
    and obj: "out \<noteq> []" "length out \<le> max_recv GetServerOptions" and id: "localNodeID (srv (c_los c n)) = n"
  shows "\<exists>w L. cluster_steps nc drv call c
    (c\<lparr>c_los := (c_los c)(n := L), c_worker := (c_worker c)(n := w),
       c_net := add_mset (MNotify \<lparr>no_Uid = run_Uid rr, no_NodeId = n, no_ObjectSize = of_nat (length out)\<rparr>) N\<rparr>) \<and>
    holds (srv L) (run_Uid rr) out \<and> gets L = gets (c_los c n) \<and> lfs L = lfs (c_los c n) \<and>
    localObjectChannels (srv L) = localObjectChannels (srv (c_los c n))"
proof -
  let ?q = "(c_worker c n)\<lparr>numQueuedTasks := numQueuedTasks (c_worker c n) + 1,
    tasks := add_mset (RQueued rr) (tasks (c_worker c n))\<rparr>"
  let ?N = "\<lparr>no_Uid = run_Uid rr, no_NodeId = n, no_ObjectSize = of_nat (length out)\<rparr>"
  let ?c1 = "c\<lparr>c_net := N\<rparr>"
  have 1: "cluster_step nc drv call c (?c1\<lparr>c_worker := (c_worker ?c1)(n := ?q)\<rparr>)"
    by (rule step_to[OF cluster_step.runs[OF n(1) net w(1)]]) (auto simp: Run_enter_def intro: cluster.equality)
  obtain w1 where 2: "cluster_steps nc drv call (?c1\<lparr>c_worker := (c_worker ?c1)(n := ?q)\<rparr>) (?c1\<lparr>c_worker := (c_worker ?c1)(n := w1)\<rparr>)"
    and w1: "fatal w1 = None" "tasks w1 = add_mset (RStoring rr out) (tasks (c_worker c n))"
    using can_execute[OF n(1), of ?q rr "tasks (c_worker c n)" ?c1 f call out drv] w f out by auto
  let ?c2 = "?c1\<lparr>c_worker := (c_worker ?c1)(n := w1)\<rparr>"
  let ?s = "srv (c_los c n)"
  let ?s' = "?s\<lparr>host := filled (shm_path (FormatUint (run_Uid rr))) out (host ?s),
    los_objectSizes := (los_objectSizes ?s)(run_Uid rr \<mapsto> of_nat (length out))\<rparr>"
  have st: "Store no_errors \<lparr>st_Uid = run_Uid rr, st_ObjectBytes = out\<rparr> ?s =
      ((Some (status True), None), [CallNotifyOwns ?N], ?s')"
    using put_shared_ok[of no_errors out "run_Uid rr" ?s] obj id by (simp add: Store_def no_errors_def)
  let ?e = "\<lparr>e_fetch = Inl (PlainError []), e_python = execute_py call, e_store = Inr (status True), e_elapsed = 0\<rparr>"
  obtain p w2 where nx: "Run_next ?e (RStoring rr out) w1 = Some (p, w2)" by (auto simp: Let_def)
  let ?L = "(c_los c n)\<lparr>srv := ?s'\<rparr>" and ?w = "w2\<lparr>tasks := add_mset p (tasks (c_worker c n))\<rparr>"
  have "cluster_step nc drv call ?c2 (c\<lparr>c_los := (c_los c)(n := ?L), c_worker := (c_worker c)(n := ?w), c_net := add_mset (MNotify ?N) N\<rparr>)"
    by (rule step_to[OF cluster_step.stores[of n nc ?c2 rr out "tasks (c_worker c n)" no_errors _ "[CallNotifyOwns ?N]" ?s' ?e p w2]])
      (use n w1 obj st nx in \<open>auto simp: answered_def client_sees_def intro: cluster.equality\<close>)
  with 1 2 have "cluster_steps nc drv call c (c\<lparr>c_los := (c_los c)(n := ?L), c_worker := (c_worker c)(n := ?w), c_net := add_mset (MNotify ?N) N\<rparr>)"
    by (meson converse_rtranclp_into_rtranclp rtranclp.rtrancl_into_rtrancl)
  moreover have "holds (srv ?L) (run_Uid rr) out" using obj by (simp add: holds_def filled_def)
  ultimately show ?thesis by (intro exI[of _ ?w] exI[of _ ?L]) simp
qed

section \<open>Calling back\<close>

lemma can_call_back:
  assumes net: "c_net c = add_mset (MNotify req) N" and wait: "addr \<in> set (lookup_list (waitlist (c_gcs c)) (no_Uid req))"
  shows "\<exists>g G. cluster_steps nc drv call c (c\<lparr>c_gcs := g, c_gos := G, c_net := add_mset (MLocation addr
    \<lparr>lf_Uid = no_Uid req, lf_Location = no_NodeId req, lf_Address = [], lf_Port = 0\<rparr>) N\<rparr>) \<and>
    no_NodeId req \<in> set (lookup_list (objectLocations g) (no_Uid req))"
proof -
  obtain gos g where ex: "gcs_exec drv (nc_los_port nc) (OpNotify req) (c_gcs c) = (gos, g)" by fastforce
  let ?go = "GoSendCallback addr (no_Uid req) (no_NodeId req)"
  have "?go \<in> set gos" using ex wait NotifyOwns_spawned[of req "c_gcs c"] by (cases "NotifyOwns req (c_gcs c)") auto
  then obtain G where G: "c_gos c + mset gos = add_mset ?go G" by (metis in_multiset_in_set mset_add union_iff)
  let ?c1 = "c\<lparr>c_gcs := g, c_gos := c_gos c + mset gos, c_net := N\<rparr>"
  have "cluster_step nc drv call c ?c1"
    by (rule cluster_step.gcs_handles[OF net _ _ ex]) simp_all
  moreover have "cluster_step nc drv call ?c1 (c\<lparr>c_gcs := g, c_gos := G, c_net := add_mset (MLocation addr
      \<lparr>lf_Uid = no_Uid req, lf_Location = no_NodeId req, lf_Address = [], lf_Port = 0\<rparr>) N\<rparr>)"
    by (rule step_to[OF cluster_step.goes[of ?c1 ?go G nc drv call None]])
      (use G in \<open>auto simp: sendCallback_def intro: cluster.equality\<close>)
  moreover have "no_NodeId req \<in> set (lookup_list (objectLocations g) (no_Uid req))"
    using ex NotifyOwns_objectLocations[of req "c_gcs c"] by (cases "NotifyOwns req (c_gcs c)") auto
  ultimately show ?thesis by (meson converse_rtranclp_into_rtranclp r_into_rtranclp)
qed

section \<open>Fetching\<close>

lemma can_meet:
  assumes m: "m \<in> nc_nodes nc" "PObjStore m \<notin> c_down c"
    and net: "c_net c = add_mset (MLocation (client_addr nc m) cb) N"
    and j: "lfs (c_los c m) j = LIdle" and i: "gets (c_los c m) i = GWaits req ch"
    and ch: "localObjectChannels (srv (c_los c m)) (lf_Uid cb) = Some ch"
  shows "\<exists>L. cluster_steps nc drv call c (c\<lparr>c_los := (c_los c)(m := L), c_net := N\<rparr>) \<and>
    gets L i = GResumed req cb \<and> srv L = srv (c_los c m)"
proof -
  let ?L = "c_los c m"
  let ?L1 = "?L\<lparr>lfs := (lfs ?L)(j := LSends cb (Some ch))\<rparr>"
  let ?L2 = "?L\<lparr>gets := (gets ?L)(i := GResumed req cb), lfs := (lfs ?L)(j := LDone)\<rparr>"
  let ?c1 = "c\<lparr>c_los := (c_los c)(m := ?L1), c_net := N\<rparr>" and ?c2 = "c\<lparr>c_los := (c_los c)(m := ?L2), c_net := N\<rparr>"
  have "cluster_step nc drv call c ?c1"
    by (rule step_to[OF cluster_step.finds[OF m net j]]) (use ch in \<open>auto simp: LocationFound_channel_def\<close>)
  moreover have "cluster_step nc drv call ?c1 ?c2"
    by (rule step_to[OF cluster_step.meets[of m nc ?c1 i req ch j cb]])
      (use m i in \<open>auto intro!: cluster.equality los_sys.equality\<close>)
  ultimately have "cluster_steps nc drv call c ?c2" by simp
  then show ?thesis by (intro exI[of _ ?L2]) simp
qed

text \<open>The answer to a \<open>Get\<close> that copied the object.\<close>

definition fetched :: "GetRequest \<Rightarrow> bytes \<Rightarrow> GetResponse" where
  "fetched req bs = \<lparr>gresp_Uid = get_Uid req, gresp_ObjectBytes = bs, gresp_Local = False,
     gresp_Size = (if get_Cache req then of_nat (length bs) else 0)\<rparr>"

lemma Get_resume_fetched:
  assumes "get_Copy req" "out \<noteq> []" "length out \<le> max_recv GetServerOptions"
  shows "\<exists>calls s'. Get_resume no_errors prefix port None (Some \<lparr>cpresp_Uid = u, cpresp_ObjectBytes = out\<rparr>, None) req cb s =
    ((Some (fetched req out), None), calls, s') \<and> (get_Cache req \<longrightarrow> holds s' (get_Uid req) out)"
proof (cases "get_Cache req")
  case True
  have "put_shared no_errors (get_Uid req) out s = (None, s\<lparr>host := filled (shm_path (FormatUint (get_Uid req))) out (host s),
      los_objectSizes := (los_objectSizes s)(get_Uid req \<mapsto> of_nat (length out))\<rparr>)"
    using assms(2) by (intro put_shared_ok) (simp_all add: no_errors_def)
  with True assms show ?thesis by (simp add: Get_resume_def fetched_def holds_def filled_def Let_def)
next
  case False
  with assms(1) show ?thesis by (simp add: Get_resume_def fetched_def Let_def)
qed

lemma can_copy:
  assumes m: "m \<in> nc_nodes nc" "PObjStore m \<notin> c_down c" and k: "k \<in> nc_nodes nc" "PObjStore k \<notin> c_down c"
    and cb: "cb = \<lparr>lf_Uid = get_Uid req, lf_Location = k, lf_Address = [], lf_Port = 0\<rparr>"
    and i: "gets (c_los c m) i = GResumed req cb" "c_copied c m i = None"
    and req: "get_Copy req" and h: "holds (srv (c_los c k)) (get_Uid req) out"
  shows "\<exists>c'. cluster_steps nc drv call c c' \<and> c_tasks c' = c_tasks c \<and>
    (m, req, (Some (fetched req out), None)) \<in> set (c_answers c') \<and>
    (get_Cache req \<longrightarrow> holds (srv (c_los c' m)) (get_Uid req) out)"
proof -
  let ?s = "srv (c_los c m)" and ?rep = "(Some \<lparr>cpresp_Uid = get_Uid req, cpresp_ObjectBytes = out\<rparr>, None)"
  obtain s' where cp: "Copy no_errors \<lparr>cp_Uid = lf_Uid cb, cp_Requester = localNodeID ?s\<rparr> (srv (c_los c k)) = (Return ?rep, s')"
    using Copy_holds(2)[OF h, of "\<lparr>cp_Uid = lf_Uid cb, cp_Requester = localNodeID ?s\<rparr>" no_errors] cb
    by (cases "Copy no_errors \<lparr>cp_Uid = lf_Uid cb, cp_Requester = localNodeID ?s\<rparr> (srv (c_los c k))") auto
  let ?c1 = "c\<lparr>c_los := (c_los c)(k := (c_los c k)\<lparr>srv := s'\<rparr>),
    c_copied := (c_copied c)(m := (c_copied c m)(i \<mapsto> (None, ?rep)))\<rparr>"
  have 1: "cluster_step nc drv call c ?c1"
    by (rule step_to[OF cluster_step.copies[of m nc k c i req cb no_errors "Return ?rep" s' "client_sees ?rep"]])
      (use m k i req cp cb in \<open>auto simp: otherLocalAddress_def los_addr_def client_sees_def stub_ret_def ended_def
        intro: cluster.equality\<close>)
  let ?r = "(Some (fetched req out), None)" and ?s1 = "srv (c_los ?c1 m)"
  obtain calls s'' where r: "Get_resume no_errors (nc_prefix nc) (nc_los_port nc) None ?rep req cb ?s1 = (?r, calls, s'')"
    and s'': "get_Cache req \<longrightarrow> holds s'' (get_Uid req) out"
    using Get_resume_fetched[OF req, of out] h unfolding holds_def by blast
  have "\<exists>c2. cluster_step nc drv call ?c1 c2 \<and> c_tasks c2 = c_tasks c \<and> (m, req, ?r) \<in> set (c_answers c2) \<and>
      (get_Cache req \<longrightarrow> holds (srv (c_los c2 m)) (get_Uid req) out)"
    by (rule exI, rule conjI, rule cluster_step.finishes[of m nc ?c1 i req cb None ?rep no_errors ?r calls s''])
      (use m k i r s'' in auto)
  with 1 show ?thesis by (meson converse_rtranclp_into_rtranclp r_into_rtranclp)
qed

section \<open>From a request to run to a waiting client\<close>

text \<open>
  A request to run a task that reaches a free worker, with a client waiting for the task's object, on
  another node or on the same: the client is sent where the object is.
\<close>

lemma can_serve:
  assumes n: "n \<in> nc_nodes nc" "PObjStore n \<notin> c_down c" "localNodeID (srv (c_los c n)) = n"
    and m: "m \<in> nc_nodes nc" "PObjStore m \<notin> c_down c" "lfs (c_los c m) j = LIdle"
    and i: "gets (c_los c m) i = GWaits req ch" "localObjectChannels (srv (c_los c m)) (run_Uid rr) = Some ch"
      "client_addr nc m \<in> set (lookup_list (waitlist (c_gcs c)) (run_Uid rr))"
    and net: "c_net c = add_mset (MRun (worker_addr nc n) rr) N"
    and w: "fatal (c_worker c n) = None" "semaphore (c_worker c n) < 10" "w_alive (c_worker c n)"
    and f: "functionStore (c_ft c) (run_Name rr) = Some f" "call f (run_Args rr) (run_Kwargs rr) = ([], Inr out)"
    and obj: "out \<noteq> []" "length out \<le> max_recv GetServerOptions"
  shows "\<exists>c'. cluster_steps nc drv call c c' \<and> c_tasks c' = c_tasks c \<and> c_down c' = c_down c \<and> c_copied c' = c_copied c \<and>
    gets (c_los c' m) i = GResumed req \<lparr>lf_Uid = run_Uid rr, lf_Location = n, lf_Address = [], lf_Port = 0\<rparr> \<and>
    n \<in> set (lookup_list (objectLocations (c_gcs c')) (run_Uid rr)) \<and> holds (srv (c_los c' n)) (run_Uid rr) out"
proof -
  let ?R = "cluster_steps nc drv call" and ?u = "run_Uid rr"
  have "executeFunction (execute_py call) f (run_Args rr) (run_Kwargs rr) = Return (Some out, None)"
    using f(2) by (simp add: executeFunction_def execute_py_payload)
  let ?no = "\<lparr>no_Uid = ?u, no_NodeId = n, no_ObjectSize = of_nat (length out)\<rparr>"
  obtain w' L where 1: "?R c (c\<lparr>c_los := (c_los c)(n := L), c_worker := (c_worker c)(n := w'),
      c_net := add_mset (MNotify ?no) N\<rparr>)" and L: "holds (srv L) ?u out" "gets L = gets (c_los c n)"
      "lfs L = lfs (c_los c n)" "localObjectChannels (srv L) = localObjectChannels (srv (c_los c n))"
    using can_run[OF n(1,2) net w f(1) _ obj n(3), of call drv] \<open>executeFunction _ _ _ _ = _\<close> by blast
  let ?c1 = "c\<lparr>c_los := (c_los c)(n := L), c_worker := (c_worker c)(n := w'), c_net := add_mset (MNotify ?no) N\<rparr>"
  let ?cb = "\<lparr>lf_Uid = ?u, lf_Location = n, lf_Address = [], lf_Port = 0\<rparr>"
  obtain g G where 2: "?R ?c1 (?c1\<lparr>c_gcs := g, c_gos := G, c_net := add_mset (MLocation (client_addr nc m) ?cb) N\<rparr>)"
    and g: "n \<in> set (lookup_list (objectLocations g) ?u)"
    using can_call_back[of ?c1 ?no N "client_addr nc m" nc drv call] i(3) by auto
  let ?c2 = "?c1\<lparr>c_gcs := g, c_gos := G, c_net := add_mset (MLocation (client_addr nc m) ?cb) N\<rparr>"
  have at_m: "lfs (c_los ?c2 m) j = LIdle" "gets (c_los ?c2 m) i = GWaits req ch"
    "localObjectChannels (srv (c_los ?c2 m)) (lf_Uid ?cb) = Some ch"
    using m(3) i(1,2) L by (cases "m = n"; simp)+
  obtain M where 3: "?R ?c2 (?c2\<lparr>c_los := (c_los ?c2)(m := M), c_net := N\<rparr>)" and M: "gets M i = GResumed req ?cb"
      "srv M = srv (c_los ?c2 m)"
    using can_meet[OF m(1) _ _ at_m, of N drv call] m(2) by auto
  have "?R c (?c2\<lparr>c_los := (c_los ?c2)(m := M), c_net := N\<rparr>)" by (rule rtranclp_trans[OF 1 rtranclp_trans[OF 2 3]])
  then show ?thesis using M L g
    by (intro exI[of _ "?c2\<lparr>c_los := (c_los ?c2)(m := M), c_net := N\<rparr>"]) simp
qed

section \<open>From submission to delivery\<close>

text \<open>Nobody knows anything about a task that was not submitted yet.\<close>

lemma fresh_task:
  assumes inv: "cluster_inv nc call rows c" and new: "c_tasks c uid = None" "uid \<noteq> 0"
  shows "los_objectSizes (srv (c_los c k)) uid = None" "locs rows (c_gcs c) uid = {}"
proof -
  have none: "task_result call (world nc c) uid = None" using new by (simp add: task_result_def world_def)
  show 1: "los_objectSizes (srv (c_los c k)) uid = None" for k
    using objs_okD[OF los_okD(1)[OF cluster_invD(5)[OF inv]], of uid k] none new(2)
    by (cases "los_objectSizes (srv (c_los c k)) uid") auto
  have "k \<notin> locs rows (c_gcs c) uid" for k
  proof -
    have "(k, uid) \<notin> v_stored (world nc c)" using 1 by simp
    then show ?thesis using cluster_invD(3)[OF inv]
      by (auto simp: gcs_ok_def locs_def simp del: in_world_stored split: if_splits)
  qed
  then show "locs rows (c_gcs c) uid = {}" by blast
qed

lemma can_resume:
  assumes db: "sqlite_available drv rows saved" and c: "cluster_reachable nc drv call rows c"
    and n: "n \<in> nc_nodes nc" "PLocalSched n \<notin> c_down c" "PObjStore n \<notin> c_down c"
    and m: "m \<in> nc_nodes nc" "PObjStore m \<notin> c_down c" "gets (c_los c m) i = GIdle" "lfs (c_los c m) j = LIdle"
    and w: "fatal (c_worker c n) = None" "semaphore (c_worker c n) < 10" "numRunningTasks (c_worker c n) < 10"
      "w_alive (c_worker c n)"
    and uid: "uid = TruncateHighBit r" "uid \<noteq> 0" "c_tasks c uid = None" and t: "sr_NodeId t = 0"
    and f: "functionStore (c_ft c) (sr_Name t) = Some f" "call f (sr_Args t) (sr_Kwargs t) = ([], Inr result)"
    and obj: "result \<noteq> []" "length result \<le> max_recv GetServerOptions"
    and req: "get_Uid req = uid" "\<not> get_Testing req"
  shows "\<exists>c'. cluster_steps nc drv call c c' \<and> c_tasks c' = (c_tasks c)(uid \<mapsto> t) \<and> c_down c' = c_down c \<and>
    c_copied c' m i = None \<and> gets (c_los c' m) i = GResumed req \<lparr>lf_Uid = uid, lf_Location = n, lf_Address = [], lf_Port = 0\<rparr> \<and>
    n \<in> locs rows (c_gcs c') uid \<and> holds (srv (c_los c' n)) uid result"
proof -
  note inv = cluster_reachable_inv[OF sqlite_available.axioms(1)[OF db] c]
  note fresh = fresh_task[OF inv uid(3,2)]
  let ?R = "cluster_steps nc drv call"
  obtain N where 1: "cluster_step nc drv call c (c\<lparr>c_tasks := (c_tasks c)(uid \<mapsto> t),
      c_net := add_mset (MRun (worker_addr nc n) (run_of uid t)) N\<rparr>)" (is "cluster_step nc drv call c ?c1")
    using can_submit[OF n(1,2) t w(3), of r uid] uid by meson
  obtain L g ch where 2: "?R ?c1 (?c1\<lparr>c_gcs := g, c_los := (c_los c)(m := L)\<rparr>)"
    and L: "gets L i = GWaits req ch" "localObjectChannels (srv L) uid = Some ch" "lfs L = lfs (c_los c m)"
      "client_addr nc m \<in> set (lookup_list (waitlist g) uid)"
    using sqlite_available.can_wait[OF db m(1), of ?c1 i req call] m fresh req uid(1) TruncateHighBit_less[of r]
    by auto
  let ?c2 = "?c1\<lparr>c_gcs := g, c_los := (c_los c)(m := L)\<rparr>"
  have "cluster_reachable nc drv call rows ?c2"
    by (rule cluster_reachable_steps[OF c converse_rtranclp_into_rtranclp[OF 1 2]])
  then have node: "localNodeID (srv (c_los ?c2 n)) = n"
    by (rule los_okD(2)[OF cluster_invD(5)[OF cluster_reachable_inv[OF sqlite_available.axioms(1)[OF db]]]])
  obtain c' where c': "?R ?c2 c'" "c_tasks c' = c_tasks ?c2" "c_down c' = c_down ?c2" "c_copied c' = c_copied ?c2"
    "gets (c_los c' m) i = GResumed req \<lparr>lf_Uid = uid, lf_Location = n, lf_Address = [], lf_Port = 0\<rparr>"
    "n \<in> set (lookup_list (objectLocations (c_gcs c')) uid)" "holds (srv (c_los c' n)) uid result"
    using can_serve[OF n(1) _ node m(1), of j i req ch "run_of uid t" N f call result drv] n m w f obj L
    by (auto simp: run_of_def)
  have "?R c c'" by (rule converse_rtranclp_into_rtranclp[OF 1 rtranclp_trans[OF 2 c'(1)]])
  moreover have "c_copied c m i = None" using los_okD(7)[OF cluster_invD(5)[OF inv]] m(3) by auto
  ultimately show ?thesis using c' by (intro exI[of _ c']) (auto simp: locs_def)
qed

lemma can_deliver:
  assumes "cluster_steps nc drv call c c1" "c_tasks c1 = (c_tasks c)(uid \<mapsto> t)" "c_down c1 = c_down c"
    and "c_copied c1 m i = None" "gets (c_los c1 m) i = GResumed req \<lparr>lf_Uid = uid, lf_Location = n, lf_Address = [], lf_Port = 0\<rparr>"
    and "holds (srv (c_los c1 n)) uid result"
    and "m \<in> nc_nodes nc" "PObjStore m \<notin> c_down c" "n \<in> nc_nodes nc" "PObjStore n \<notin> c_down c"
    and "get_Uid req = uid" "get_Copy req"
  shows "\<exists>c'. cluster_steps nc drv call c c' \<and> c_tasks c' uid = Some t \<and>
    (m, req, (Some (fetched req result), None)) \<in> set (c_answers c') \<and>
    (get_Cache req \<longrightarrow> holds (srv (c_los c' m)) uid result)"
proof -
  obtain c' where "cluster_steps nc drv call c1 c'" "c_tasks c' = c_tasks c1"
    "(m, req, (Some (fetched req result), None)) \<in> set (c_answers c')" "get_Cache req \<longrightarrow> holds (srv (c_los c' m)) uid result"
    using can_copy[of m nc c1 n "\<lparr>lf_Uid = uid, lf_Location = n, lf_Address = [], lf_Port = 0\<rparr>" req i result drv call]
      assms by auto
  with assms(1,2) show ?thesis by (intro exI[of _ c']) (simp add: rtranclp_trans[of "cluster_step nc drv call"])
qed

end
