(* ===== verification/Cluster_Parts.thy ===== *)
theory Cluster_Parts
  imports Cluster_System Worker_Node_Props Local_ObjStore_Props
begin

text \<open>
  Inside the cluster every component behaves as it does alone, so that what its own theory shows of its
  reachable states holds on every node of a running cluster.
\<close>

section \<open>Workers and stores\<close>

lemma task_step_in:
  assumes "fatal w = None" "tasks w = add_mset p M" "Run_next e p w = Some (p', w')"
  shows "worker_step\<^sup>*\<^sup>* w (w'\<lparr>tasks := add_mset p' M\<rparr>)"
  using worker_step.task[OF assms] by blast

lemma worker_part_step:
  assumes "cluster_step nc drv call c c'"
  shows "worker_step\<^sup>*\<^sup>* (c_worker c n) (c_worker c' n)"
  using assms
proof (cases rule: cluster_step.cases)
  case (runs k req N p w')
  then show ?thesis using worker_step.enter[OF runs(4,5)] by auto
next
  case (works k p M e p' w')
  then show ?thesis using task_step_in[OF works(3,4,6)] by auto
next
  case (stores k req out M errs r calls srv' e p' w')
  then show ?thesis using task_step_in[OF stores(3,4,9)] by auto
next
  case (worker_kill k)
  then show ?thesis using worker_step.kill[OF worker_kill(2)] by auto
next
  case (worker_revive k)
  then show ?thesis using worker_step.revive[OF worker_revive(2)] by auto
qed simp_all

interpretation wp: simulation "cluster_step nc drv call" worker_step "\<lambda>c. c_worker c n" for nc drv call n
  by unfold_locales (rule worker_part_step)

lemma los_part_step:
  assumes "cluster_step nc drv call c c'"
  shows "los_steps (nc_prefix nc) (nc_los_port nc) (c_los c n) (c_los c' n)"
  using assms
proof (cases rule: cluster_step.cases)
  case (stores k req out M errs r calls srv' e p' w')
  then show ?thesis using los_step.store[OF stores(7)] by auto
next
  case (gets_now k i req r calls srv')
  then show ?thesis using los_step.get_hit[OF gets_now(4,5)] by auto
next
  case (gets_later k i req calls srv')
  then show ?thesis using los_step.get_miss[OF gets_later(4,5)] by auto
next
  case (waits k i req ch)
  then show ?thesis using los_step.get_wait[OF waits(4,5)] by auto
next
  case (finds k cb N j)
  then show ?thesis using los_step.lf_call[OF finds(5)] by auto
next
  case (meets k i req ch j cb)
  then show ?thesis using los_step.handover[OF meets(4,5)] by auto
next
  case (copies k l i req cb errs out srv' answer)
  then show ?thesis using los_step.copy[OF copies(9)] by auto
next
  case (finishes k i req cb dialErr copied errs r calls srv')
  then show ?thesis using los_step.get_end[OF finishes(4,6)] by auto
qed simp_all

interpretation lp: simulation "cluster_step nc drv call" "los_step (nc_prefix nc) (nc_los_port nc)" "\<lambda>c. c_los c n"
  for nc drv call n
  by unfold_locales (rule los_part_step)

section \<open>The object table\<close>

lemma gcs_part_step:
  assumes "cluster_step nc drv call c c'" "gcs_reach drv (nc_los_port nc) g gos (c_gcs c)"
  shows "\<exists>gos'. gcs_reach drv (nc_los_port nc) g gos' (c_gcs c')"
  using assms
proof (cases rule: cluster_step.cases)
  case (gcs_handles m N op gos' g')
  then show ?thesis using gcs_reach.step[OF assms(2) gcs_handles(4,5)] by auto
next
  case (flushes ks ks' gos' g')
  then show ?thesis using gcs_reach.step[OF assms(2) flushes(2,3)] by auto
qed auto

lemma gcs_part:
  "cluster_steps nc drv call c c' \<Longrightarrow> \<exists>gos. gcs_reach drv (nc_los_port nc) (c_gcs c) gos (c_gcs c')"
proof (induction rule: rtranclp_induct)
  case base
  show ?case using gcs_reach.start by blast
next
  case (step c1 c2)
  then show ?case using gcs_part_step by blast
qed

end
