(* ===== verification/Cluster_Spec.thy ===== *)
theory Cluster_Spec
  imports Cluster_Inv
begin

text \<open>
  What a client may rely on, without nodes, messages, stores or schedulers: functions and tasks are
  named once, and whoever asks for a task's object gets the value of that task. Every run of the
  cluster is a run of this specification.
\<close>

section \<open>The specification\<close>

record futures =
  f_funcs :: "u64 \<rightharpoonup> bytes"
  f_tasks :: "u64 \<rightharpoonup> ScheduleRequest"
  f_answers :: "(u64 \<times> GetRequest \<times> GetResponse ret) list"

definition no_futures :: futures where
  "no_futures = \<lparr>f_funcs = Map.empty, f_tasks = Map.empty, f_answers = []\<rparr>"

text \<open>The value of a task: its function, applied to its arguments.\<close>

definition future_value ::
  "(bytes \<Rightarrow> bytes \<Rightarrow> bytes \<Rightarrow> string \<times> (string + bytes)) \<Rightarrow> (u64 \<rightharpoonup> bytes) \<Rightarrow>
     (u64 \<rightharpoonup> ScheduleRequest) \<Rightarrow> u64 \<Rightarrow> bytes option" where
  "future_value call named submitted u =
     (case submitted u of
        None \<Rightarrow> None
      | Some t \<Rightarrow>
          (case named (sr_Name t) of
             None \<Rightarrow> None
           | Some f \<Rightarrow>
               (case executeFunction (execute_py call) f (sr_Args t) (sr_Kwargs t) of
                  Return (Some bs, None) \<Rightarrow> Some bs
                | _ \<Rightarrow> None)))"

text \<open>
  An answer that keeps the promise: an error, or the value, as bytes or, when the object is in the
  client's own shared memory, as its size. A request that wants no copy is only told that the object
  exists.
\<close>

definition delivers :: "GetResponse \<Rightarrow> bytes \<Rightarrow> bool" where
  "delivers resp bs \<longleftrightarrow> (if gresp_Local resp then gresp_Size resp = of_nat (length bs) else gresp_ObjectBytes resp = bs)"

fun promised ::
  "(bytes \<Rightarrow> bytes \<Rightarrow> bytes \<Rightarrow> string \<times> (string + bytes)) \<Rightarrow> futures \<Rightarrow> GetRequest \<Rightarrow> GetResponse ret \<Rightarrow> bool" where
  "promised call s req (Some resp, None) =
     (get_Uid req \<noteq> 0 \<and> (gresp_Local resp \<or> get_Copy req) \<longrightarrow>
        (case future_value call (f_funcs s) (f_tasks s) (get_Uid req) of None \<Rightarrow> False | Some bs \<Rightarrow> delivers resp bs))"
| "promised call s req _ = True"

inductive futures_step ::
  "(bytes \<Rightarrow> bytes \<Rightarrow> bytes \<Rightarrow> string \<times> (string + bytes)) \<Rightarrow> futures \<Rightarrow> futures \<Rightarrow> bool" for call where
  name_function: "f_funcs s name = None \<Longrightarrow> futures_step call s (s\<lparr>f_funcs := (f_funcs s)(name \<mapsto> f)\<rparr>)"
| name_task: "f_tasks s u = None \<Longrightarrow> futures_step call s (s\<lparr>f_tasks := (f_tasks s)(u \<mapsto> t)\<rparr>)"
| answer: "promised call s req r \<Longrightarrow> futures_step call s (s\<lparr>f_answers := f_answers s @ [(n, req, r)]\<rparr>)"

inductive_cases futures_stepE: "futures_step call s s'"

section \<open>What the specification gives\<close>

text \<open>A value, once there, stays, and every answer there is keeps the promise.\<close>

lemma future_value_stays:
  assumes "futures_step call s s'" "future_value call (f_funcs s) (f_tasks s) u = Some bs"
  shows "future_value call (f_funcs s') (f_tasks s') u = Some bs"
  using assms(1)
proof (cases rule: futures_step.cases)
  case (name_function name f)
  with assms(2) show ?thesis by (auto simp: future_value_def split: option.splits)
next
  case (name_task k t)
  with assms(2) show ?thesis by (auto simp: future_value_def split: option.splits)
next
  case (answer req r n)
  with assms(2) show ?thesis by simp
qed

definition futures_inv :: "(bytes \<Rightarrow> bytes \<Rightarrow> bytes \<Rightarrow> string \<times> (string + bytes)) \<Rightarrow> futures \<Rightarrow> bool" where
  "futures_inv call s \<longleftrightarrow> (\<forall>(n, req, r) \<in> set (f_answers s). promised call s req r)"

lemma promised_stays:
  assumes "futures_step call s s'" "promised call s req r"
  shows "promised call s' req r"
  using assms(2) future_value_stays[OF assms(1)]
  by (cases "(call, s, req, r)" rule: promised.cases) (auto split: option.splits)

lemma futures_step_inv: "futures_step call s s' \<Longrightarrow> futures_inv call s \<Longrightarrow> futures_inv call s'"
proof -
  assume st: "futures_step call s s'" and inv: "futures_inv call s"
  have "promised call s' req r" if "(n, req, r) \<in> set (f_answers s')" for n req r
  proof -
    have "promised call s req r"
      using st that inv by (cases rule: futures_step.cases) (auto simp: futures_inv_def)
    then show ?thesis by (rule promised_stays[OF st])
  qed
  then show ?thesis by (auto simp: futures_inv_def)
qed

interpretation fut: step_invariant "futures_step call" "futures_inv call" for call
  by unfold_locales (rule futures_step_inv)

lemma no_futures_inv: "futures_inv call no_futures"
  by (simp add: futures_inv_def no_futures_def)

text \<open>So all answers about one task agree.\<close>

lemma futures_agree:
  assumes "(futures_step call)\<^sup>*\<^sup>* no_futures s" "u \<noteq> 0"
  shows "\<exists>bs. \<forall>(n, req, r) \<in> set (f_answers s). \<forall>resp.
    r = (Some resp, None) \<and> get_Uid req = u \<and> (gresp_Local resp \<or> get_Copy req) \<longrightarrow> delivers resp bs"
proof -
  have "delivers resp (the (future_value call (f_funcs s) (f_tasks s) u))"
    if "(n, req, Some resp, None) \<in> set (f_answers s)" "get_Uid req = u" "gresp_Local resp \<or> get_Copy req" for n req resp
    using fut.steps_inv[OF assms(1) no_futures_inv] assms(2) that
    by (fastforce simp: futures_inv_def split: option.splits)
  then show ?thesis by blast
qed

section \<open>The cluster refines it\<close>

definition futures_of :: "'db cluster \<Rightarrow> futures" where
  "futures_of c = \<lparr>f_funcs = functionStore (c_ft c), f_tasks = c_tasks c, f_answers = c_answers c\<rparr>"

lemma future_value_world:
  "task_result call (world nc c) u = future_value call (functionStore (c_ft c)) (c_tasks c) u"
proof -
  have "v_tasks (world nc c) = c_tasks c" "v_funcs (world nc c) = functionStore (c_ft c)" by (simp_all add: world_def)
  then show ?thesis by (simp only: task_result_def future_value_def)
qed

lemma promised_answer_ok:
  assumes "answer_ok call (world nc c) (n, req, r)"
  shows "promised call (futures_of c) req r"
  using assms
  by (cases "(call, world nc c, n, req, r)" rule: answer_ok.cases)
    (auto simp: future_value_world futures_of_def delivers_def split: if_splits)

lemma new_cluster_futures: "futures_of (new_cluster g ms) = no_futures"
  by (simp add: futures_of_def no_futures_def new_cluster_def NewGCSFuncServer_def)

lemma futures_answer:
  assumes "cluster_inv nc call rows c'" "c_answers c' = c_answers c @ [(n, req, r)]"
    and "c_ft c' = c_ft c" "c_tasks c' = c_tasks c"
  shows "futures_step call (futures_of c) (futures_of c')"
proof -
  have "promised call (futures_of c') req r"
    by (rule promised_answer_ok[OF cluster_invD(7)[OF assms(1)], of n]) (simp add: assms(2))
  then have "promised call (futures_of c) req r"
    using assms(3,4) by (cases "(call, futures_of c, req, r)" rule: promised.cases) (auto simp: futures_of_def)
  from futures_step.answer[OF this, of n] assms(2-4) show ?thesis by (simp add: futures_of_def)
qed

context sqlite
begin

lemma cluster_step_futures:
  assumes "cluster_inv nc call rows c" "cluster_step nc drv call c c'"
  shows "(futures_step call)\<^sup>*\<^sup>* (futures_of c) (futures_of c')"
proof -
  note inv' = cluster_step_inv[OF assms(2,1)]
  from assms(2) show ?thesis
  proof (cases rule: cluster_step.cases)
    case (registers src req r ft')
    then have "ft' = c_ft c \<or> (\<exists>name. functionStore (c_ft c) name = None \<and>
        functionStore ft' = (functionStore (c_ft c))(name \<mapsto> reg_SerializedFunc req))"
      by (auto simp: RegisterFunc_def split: sum.splits)
    then show ?thesis
      using registers(1) futures_step.name_function[of "futures_of c" _ call] by (auto simp: futures_of_def)
  next
    case (submits n st r req out calls bg)
    with futures_step.name_task[of "futures_of c" "TruncateHighBit r" call req] show ?thesis
      by (auto simp: futures_of_def)
  next
    case (gets_now n i req r calls srv')
    then show ?thesis using futures_answer[OF inv', of c n req r] by (simp add: r_into_rtranclp)
  next
    case (finishes n i req cb dialErr copied errs r calls srv')
    then show ?thesis using futures_answer[OF inv', of c n req r] by (simp add: r_into_rtranclp)
  qed (simp_all add: futures_of_def)
qed

end

sublocale sqlite \<subseteq> sp: refinement "cluster_step nc drv call" "cluster_inv nc call rows" "futures_step call" futures_of
  for nc call
  by unfold_locales (rule cluster_step_futures)

context sqlite
begin

lemma cluster_futures:
  assumes "cluster_reachable nc drv call rows c"
  shows "(futures_step call)\<^sup>*\<^sup>* no_futures (futures_of c)"
proof -
  obtain opened sec g ms where n: "NewGCSObjServer drv opened sec = Return g" "rows (database g) = {}"
    and s: "cluster_steps nc drv call (new_cluster g ms) c"
    using assms by (auto simp: cluster_reachable_def)
  show ?thesis using sp.steps_abs[OF s new_cluster_inv[OF n(1), of rows, OF n(2)]] by (simp only: new_cluster_futures)
qed

lemma cluster_futures_steps:
  "cluster_steps nc drv call c c' \<Longrightarrow> cluster_inv nc call rows c \<Longrightarrow>
     (futures_step call)\<^sup>*\<^sup>* (futures_of c) (futures_of c')"
  by (rule sp.steps_abs)

end

end
