(* ===== verification/Cluster_Props.thy ===== *)
theory Cluster_Props
  imports Cluster_Run Cluster_Parts Cluster_Spec GCS_ObjTable_Props
begin

text \<open>
  What the whole system promises: an answer to \<open>Get\<close> is the result of the task, the object table
  only names nodes that hold the object, and a task that is submitted can be run and its result
  delivered.
\<close>

text \<open>A name, arguments and keyword arguments are those of a task.\<close>

definition describes :: "ScheduleRequest \<Rightarrow> u64 \<times> bytes \<times> bytes \<Rightarrow> bool" where
  "describes t r \<longleftrightarrow> r = (sr_Name t, sr_Args t, sr_Kwargs t)"

text \<open>The request a call of \<open>Run\<close> works on, from the queue until its result is stored or it failed.\<close>

fun request_of :: "run_pc \<Rightarrow> RunRequest option" where
  "request_of (RQueued r) = Some r"
| "request_of (RAcquired r) = Some r"
| "request_of (RStarted r) = Some r"
| "request_of (RFetched r f) = Some r"
| "request_of (RExecuted r bs) = Some r"
| "request_of (RStoring r bs) = Some r"
| "request_of _ = None"

section \<open>A small cluster\<close>

text \<open>
  Nodes 2 and 3 with the shipped ports; functions that append their argument. It is used to show
  that the theorems below speak about states that exist.
\<close>

definition small_cluster :: wiring where
  "small_cluster = \<lparr>nc_nodes = {2, 3}, nc_prefix = ''node'', nc_los_port = 50000, nc_worker_port = 50002,
     nc_peer = (\<lambda>n. ''10.0.0.'' @ FormatUint n @ '':4711'')\<rparr>"

definition appending :: "bytes \<Rightarrow> bytes \<Rightarrow> bytes \<Rightarrow> string \<times> (string + bytes)" where
  "appending f args kwargs = ([], Inr (f @ args))"

abbreviation small_steps :: "table cluster \<Rightarrow> table cluster \<Rightarrow> bool" where
  "small_steps \<equiv> cluster_steps small_cluster table_driver appending"

abbreviation small_reachable :: "table cluster \<Rightarrow> bool" where
  "small_reachable \<equiv> cluster_reachable small_cluster table_driver appending trows"

abbreviation task5 :: ScheduleRequest where
  "task5 \<equiv> \<lparr>sr_Name = 7, sr_Args = [4], sr_Kwargs = [], sr_Uids = [], sr_NodeId = 0, sr_LocalityFlag = False\<rparr>"

abbreviation get5 :: GetRequest where
  "get5 \<equiv> \<lparr>get_Uid = 5, get_Testing = False, get_Copy = True, get_Cache = False\<rparr>"

text \<open>The cluster after function 7 was registered.\<close>

definition small_started :: "table cluster" where
  "small_started = (new_cluster (server_with Map.empty []) (\<lambda>_. idle_machine))\<lparr>c_ft := \<lparr>functionStore = [7 \<mapsto> [9]]\<rparr>\<rparr>"

lemma small_started_steps: "small_steps (new_cluster (server_with Map.empty []) (\<lambda>_. idle_machine)) small_started"
proof -
  have "cluster_step small_cluster table_driver appending
      (new_cluster (server_with Map.empty []) (\<lambda>_. idle_machine)) small_started"
    by (rule step_to[OF cluster_step.registers[of "Inr (be_bytes 8 7)" "\<lparr>reg_SerializedFunc = [9]\<rparr>"]])
      (auto simp: RegisterFunc_def new_cluster_def small_started_def NewGCSFuncServer_def)
  then show ?thesis by blast
qed

lemma small_started_reachable: "small_reachable small_started"
proof -
  have "NewGCSObjServer table_driver (Inr \<lparr>t_rows = [], t_saved = []\<rparr>) (- 1) = Return (server_with Map.empty [])"
    by (simp add: NewGCSObjServer_def setCacheSizeToZero_def createObjectLocationsTable_def Exec_def Let_def
        table_exec_def deleteSQL_def createTableSQL_def createIndexSQL_def server_with_def table_driver_def)
  then show ?thesis using small_started_steps unfolding cluster_reachable_def
    by (intro exI[of _ "Inr \<lparr>t_rows = [], t_saved = []\<rparr>"] exI[of _ "- 1"] exI[of _ "server_with Map.empty []"]
        exI[of _ "\<lambda>_. idle_machine"]) auto
qed

lemma small_resumed:
  "\<exists>c. small_steps small_started c \<and> small_reachable c \<and> c_tasks c = [5 \<mapsto> task5] \<and> c_down c = {} \<and>
    c_copied c 2 0 = None \<and> gets (c_los c 2) 0 = GResumed get5 \<lparr>lf_Uid = 5, lf_Location = 3, lf_Address = [], lf_Port = 0\<rparr> \<and>
    3 \<in> locs trows (c_gcs c) 5 \<and> holds (srv (c_los c 3)) 5 [9, 4]"
proof -
  have five: "TruncateHighBit 5 = 5" by (rule TruncateHighBit_id) simp
  have "\<exists>c. small_steps small_started c \<and> c_tasks c = (c_tasks small_started)(5 \<mapsto> task5) \<and> c_down c = c_down small_started \<and>
      c_copied c 2 0 = None \<and> gets (c_los c 2) 0 = GResumed get5 \<lparr>lf_Uid = 5, lf_Location = 3, lf_Address = [], lf_Port = 0\<rparr> \<and>
      3 \<in> locs trows (c_gcs c) 5 \<and> holds (srv (c_los c 3)) 5 [9, 4]"
    by (rule can_resume[OF tbl.sqlite_available_axioms small_started_reachable, where r = 5 and f = "[9]" and j = 0])
      (simp_all add: small_started_def small_cluster_def new_cluster_def new_worker_def los_start_def appending_def
        GetServerOptions_def five)
  then show ?thesis using cluster_reachable_steps[OF small_started_reachable]
    by (auto simp: small_started_def new_cluster_def)
qed

lemma small_answered:
  "\<exists>c. small_reachable c \<and> c_tasks c 5 = Some task5 \<and> (2, get5, (Some \<lparr>gresp_Uid = 5, gresp_ObjectBytes = [9, 4],
     gresp_Local = False, gresp_Size = 0\<rparr>, None)) \<in> set (c_answers c)"
proof -
  obtain c where c: "small_steps small_started c" "c_tasks c = [5 \<mapsto> task5]" "c_down c = {}"
    "c_copied c 2 0 = None" "gets (c_los c 2) 0 = GResumed get5 \<lparr>lf_Uid = 5, lf_Location = 3, lf_Address = [], lf_Port = 0\<rparr>"
    "holds (srv (c_los c 3)) 5 [9, 4]"
    using small_resumed by blast
  have "\<exists>c'. small_steps small_started c' \<and> c_tasks c' 5 = Some task5 \<and> (2, get5, (Some \<lparr>gresp_Uid = 5,
      gresp_ObjectBytes = [9, 4], gresp_Local = False, gresp_Size = 0\<rparr>, None)) \<in> set (c_answers c')"
    using can_deliver[OF c(1), of 5 task5 2 0 get5 3 "[9, 4]"] c
    by (auto simp: small_started_def small_cluster_def new_cluster_def fetched_def)
  then show ?thesis using cluster_reachable_steps[OF small_started_reachable] by blast
qed

section \<open>Answers\<close>

lemma task_resultD:
  assumes "task_result call (world nc c) u = Some bs"
  shows "\<exists>t f. c_tasks c u = Some t \<and> functionStore (c_ft c) (sr_Name t) = Some f \<and>
    executeFunction (execute_py call) f (sr_Args t) (sr_Kwargs t) = Return (Some bs, None)"
  using assms by (auto simp: task_result_def world_def split: option.splits outcome.splits prod.splits)

lemma stored_object:
  assumes "cluster_inv nc call rows c" "(n, u) \<in> v_stored (world nc c)" "u \<noteq> 0"
  shows "\<exists>bs. task_result call (world nc c) u = Some bs \<and> holds (srv (c_los c n)) u bs"
  using objs_okD[OF los_okD(1)[OF cluster_invD(5)[OF assms(1)]]] assms(2,3) by auto

lemma holds_Copy:
  assumes "holds s u bs"
  shows "\<exists>s'. Copy no_errors \<lparr>cp_Uid = u, cp_Requester = q\<rparr> s =
    (Return (Some \<lparr>cpresp_Uid = u, cpresp_ObjectBytes = bs\<rparr>, None), s')"
  using Copy_holds(2)[OF assms, of "\<lparr>cp_Uid = u, cp_Requester = q\<rparr>" no_errors]
  by (cases "Copy no_errors \<lparr>cp_Uid = u, cp_Requester = q\<rparr> s") auto

text \<open>C1 End to end: whatever the cluster did, in whatever order, with calls failing, workers and
  schedulers killed and objects fetched and cached again, every successful answer to a copying
  \<open>Get\<close> is about a task that was submitted, and it delivers exactly what running the task's
  registered function on the task's arguments yields: as bytes, or, when the object is on the client's own
  node, as its size, with the bytes in that node's shared memory. If the function prints nothing,
  that is the pickled result itself. The random draws that name functions and tasks are taken not to
  repeat, and uid 0, which the code also uses for an empty request, is left out.\<close>

theorem cluster_Get_returns_result:
  assumes "sqlite drv rows saved" "cluster_reachable nc drv call rows c"
    and "(n, req, (Some resp, None)) \<in> set (c_answers c)" "get_Uid req \<noteq> 0" "get_Copy req"
  shows "\<exists>t f bs. c_tasks c (get_Uid req) = Some t \<and> functionStore (c_ft c) (sr_Name t) = Some f \<and>
    executeFunction (execute_py call) f (sr_Args t) (sr_Kwargs t) = Return (Some bs, None) \<and>
    (\<forall>result. call f (sr_Args t) (sr_Kwargs t) = ([], Inr result) \<longrightarrow> bs = result) \<and>
    (if gresp_Local resp
     then gresp_Size resp = of_nat (length bs) \<and>
       (\<exists>s'. Copy no_errors \<lparr>cp_Uid = get_Uid req, cp_Requester = n\<rparr> (srv (c_los c n)) =
          (Return (Some \<lparr>cpresp_Uid = get_Uid req, cpresp_ObjectBytes = bs\<rparr>, None), s'))
     else gresp_ObjectBytes resp = bs)"
proof -
  let ?v = "world nc c" and ?u = "get_Uid req"
  note inv = cluster_reachable_inv[OF assms(1,2)]
  have ok: "answer_ok call ?v (n, req, (Some resp, None))" by (rule cluster_invD(7)[OF inv assms(3)])
  obtain bs where bs: "task_result call ?v ?u = Some bs"
    and ans: "if gresp_Local resp then (n, ?u) \<in> v_stored ?v \<and> gresp_Size resp = of_nat (length bs)
              else gresp_ObjectBytes resp = bs"
    using ok assms(4,5) by (auto split: if_splits)
  obtain t f where t: "c_tasks c ?u = Some t" "functionStore (c_ft c) (sr_Name t) = Some f"
    "executeFunction (execute_py call) f (sr_Args t) (sr_Kwargs t) = Return (Some bs, None)"
    using task_resultD[OF bs] by blast
  moreover have "bs = result" if "call f (sr_Args t) (sr_Kwargs t) = ([], Inr result)" for result
    using t(3) that by (simp add: executeFunction_def execute_py_payload)
  moreover have "\<exists>s'. Copy no_errors \<lparr>cp_Uid = ?u, cp_Requester = n\<rparr> (srv (c_los c n)) =
      (Return (Some \<lparr>cpresp_Uid = ?u, cpresp_ObjectBytes = bs\<rparr>, None), s')" if "(n, ?u) \<in> v_stored ?v"
    using stored_object[OF inv that assms(4)] bs by (auto intro: holds_Copy)
  ultimately show ?thesis using ans by (intro exI[of _ t] exI[of _ f] exI[of _ bs]) auto
qed

theorem cluster_Get_returns_result_witness:
  "\<exists>c t f. small_reachable c \<and> (2, get5, (Some \<lparr>gresp_Uid = 5, gresp_ObjectBytes = [9, 4], gresp_Local = False,
       gresp_Size = 0\<rparr>, None)) \<in> set (c_answers c) \<and>
     c_tasks c 5 = Some t \<and> functionStore (c_ft c) (sr_Name t) = Some f \<and>
     executeFunction (execute_py appending) f (sr_Args t) (sr_Kwargs t) = Return (Some [9, 4], None)"
proof -
  obtain c where c: "small_reachable c" "(2, get5, (Some \<lparr>gresp_Uid = 5, gresp_ObjectBytes = [9, 4],
      gresp_Local = False, gresp_Size = 0\<rparr>, None)) \<in> set (c_answers c)"
    using small_answered by blast
  from cluster_Get_returns_result[OF tbl.sqlite_axioms c] c show ?thesis by auto
qed

section \<open>The specification\<close>

text \<open>C2 The cluster implements the specification of futures: whatever it does, with all its nodes,
  messages, failures and repeated runs, is, for its clients, a sequence of functions and tasks named once
  and of answers that deliver the value of the task they are about. So all successful answers about one
  task, wherever and whenever they are given, agree.\<close>

theorem cluster_implements_futures:
  assumes "sqlite drv rows saved" "cluster_reachable nc drv call rows c"
  shows "(futures_step call)\<^sup>*\<^sup>* no_futures (futures_of c) \<and>
    (\<forall>c'. cluster_steps nc drv call c c' \<longrightarrow> (futures_step call)\<^sup>*\<^sup>* (futures_of c) (futures_of c')) \<and>
    (\<forall>u. u \<noteq> 0 \<longrightarrow> (\<exists>bs. \<forall>n req resp. (n, req, (Some resp, None)) \<in> set (c_answers c) \<and> get_Uid req = u \<and> get_Copy req \<longrightarrow>
       delivers resp bs))"
proof (intro conjI allI impI)
  show run: "(futures_step call)\<^sup>*\<^sup>* no_futures (futures_of c)" by (rule sqlite.cluster_futures[OF assms])
  show "(futures_step call)\<^sup>*\<^sup>* (futures_of c) (futures_of c')" if "cluster_steps nc drv call c c'" for c'
    by (rule sqlite.cluster_futures_steps[OF assms(1) that cluster_reachable_inv[OF assms]])
  show "\<exists>bs. \<forall>n req resp. (n, req, (Some resp, None)) \<in> set (c_answers c) \<and> get_Uid req = u \<and> get_Copy req \<longrightarrow>
       delivers resp bs" if "u \<noteq> 0" for u
    using futures_agree[OF run that] by (fastforce simp: futures_of_def)
qed

theorem cluster_implements_futures_witness:
  "\<exists>s. (futures_step appending)\<^sup>*\<^sup>* no_futures s \<and> (2, get5, (Some \<lparr>gresp_Uid = 5, gresp_ObjectBytes = [9, 4],
     gresp_Local = False, gresp_Size = 0\<rparr>, None)) \<in> set (f_answers s)"
proof -
  obtain c where c: "small_reachable c" "(2, get5, (Some \<lparr>gresp_Uid = 5, gresp_ObjectBytes = [9, 4],
      gresp_Local = False, gresp_Size = 0\<rparr>, None)) \<in> set (c_answers c)"
    using small_answered by blast
  from cluster_implements_futures[OF tbl.sqlite_axioms c(1)] c(2) show ?thesis
    by (intro exI[of _ "futures_of c"]) (simp add: futures_of_def)
qed

section \<open>Locations\<close>

text \<open>C5 The object table is sound across the cluster: a node it lists for the object of a task, in
  memory or in the database, is a node of the cluster whose store holds that object, complete and
  readable, whatever was flushed, announced twice or lost in between.\<close>

theorem cluster_locations_hold_object:
  assumes "sqlite drv rows saved" "cluster_reachable nc drv call rows c"
    and "k \<in> locs rows (c_gcs c) u" "u \<noteq> 0"
  shows "k \<in> nc_nodes nc \<and> (\<exists>t f bs s'. c_tasks c u = Some t \<and> functionStore (c_ft c) (sr_Name t) = Some f \<and>
    executeFunction (execute_py call) f (sr_Args t) (sr_Kwargs t) = Return (Some bs, None) \<and>
    Copy no_errors \<lparr>cp_Uid = u, cp_Requester = q\<rparr> (srv (c_los c k)) =
      (Return (Some \<lparr>cpresp_Uid = u, cpresp_ObjectBytes = bs\<rparr>, None), s'))"
proof -
  note inv = cluster_reachable_inv[OF assms(1,2)]
  have st: "(k, u) \<in> v_stored (world nc c)"
    using assms(3) cluster_invD(3)[OF inv] by (auto simp: gcs_ok_def locs_def split: if_splits)
  then obtain bs where bs: "task_result call (world nc c) u = Some bs" "holds (srv (c_los c k)) u bs"
    using stored_object[OF inv _ assms(4)] by blast
  with st task_resultD[OF bs(1)] holds_Copy[OF bs(2), of q] show ?thesis by auto
qed

theorem cluster_locations_hold_object_witness:
  "\<exists>c bs s'. small_reachable c \<and> 3 \<in> locs trows (c_gcs c) 5 \<and>
     Copy no_errors \<lparr>cp_Uid = 5, cp_Requester = 2\<rparr> (srv (c_los c 3)) =
       (Return (Some \<lparr>cpresp_Uid = 5, cpresp_ObjectBytes = bs\<rparr>, None), s')"
proof -
  obtain c where c: "small_reachable c" "3 \<in> locs trows (c_gcs c) 5" using small_resumed by blast
  from cluster_locations_hold_object[OF tbl.sqlite_axioms c, of 2] c show ?thesis by auto
qed

text \<open>C6 A \<open>Get\<close> that was sent a location other than node 0 does not copy in vain: the callback is
  about its object, the address it dials is that of a node that holds the object, and a copy from there that
  meets no system error delivers the task's result; no copy ends that node's store.\<close>

theorem cluster_callback_is_backed:
  assumes "sqlite drv rows saved" "cluster_reachable nc drv call rows c"
    and "gets (c_los c n) i = GResumed req cb" "lf_Location cb \<noteq> 0" "get_Uid req \<noteq> 0"
  shows "lf_Uid cb = get_Uid req \<and> lf_Location cb \<in> nc_nodes nc \<and>
    otherLocalAddress (nc_prefix nc) (nc_los_port nc) cb = los_addr nc (lf_Location cb) \<and>
    (\<exists>t f bs s'. c_tasks c (get_Uid req) = Some t \<and> functionStore (c_ft c) (sr_Name t) = Some f \<and>
       executeFunction (execute_py call) f (sr_Args t) (sr_Kwargs t) = Return (Some bs, None) \<and>
       Copy no_errors \<lparr>cp_Uid = lf_Uid cb, cp_Requester = n\<rparr> (srv (c_los c (lf_Location cb))) =
         (Return (Some \<lparr>cpresp_Uid = get_Uid req, cpresp_ObjectBytes = bs\<rparr>, None), s')) \<and>
    (\<forall>errs msg. fst (Copy errs \<lparr>cp_Uid = lf_Uid cb, cp_Requester = n\<rparr> (srv (c_los c (lf_Location cb)))) \<noteq> Fatal msg)"
proof -
  note inv = cluster_reachable_inv[OF assms(1,2)]
  let ?u = "get_Uid req" and ?k = "lf_Location cb"
  have cb: "cb_ok (world nc c) cb" "lf_Uid cb = ?u" using los_okD(5)[OF cluster_invD(5)[OF inv] assms(3)] by auto
  then have st: "(?k, ?u) \<in> v_stored (world nc c)" and port: "lf_Port cb = 0" using assms(4) by (auto simp: cb_ok_def)
  obtain bs where bs: "task_result call (world nc c) ?u = Some bs" "holds (srv (c_los c ?k)) ?u bs"
    using stored_object[OF inv st assms(5)] by blast
  have "fst (Copy errs \<lparr>cp_Uid = ?u, cp_Requester = n\<rparr> (srv (c_los c ?k))) \<noteq> Fatal msg" for errs msg
    using Copy_holds(1)[OF bs(2), of "\<lparr>cp_Uid = ?u, cp_Requester = n\<rparr>" errs]
    by (cases "Copy errs \<lparr>cp_Uid = ?u, cp_Requester = n\<rparr> (srv (c_los c ?k))") auto
  with cb st port task_resultD[OF bs(1)] holds_Copy[OF bs(2), of n] show ?thesis
    by (auto simp: otherLocalAddress_def los_addr_def)
qed

theorem cluster_callback_is_backed_witness:
  "\<exists>c cb bs s'. small_reachable c \<and> gets (c_los c 2) 0 = GResumed get5 cb \<and> lf_Location cb = 3 \<and>
     otherLocalAddress ''node'' 50000 cb = los_addr small_cluster 3 \<and>
     Copy no_errors \<lparr>cp_Uid = 5, cp_Requester = 2\<rparr> (srv (c_los c 3)) =
       (Return (Some \<lparr>cpresp_Uid = 5, cpresp_ObjectBytes = bs\<rparr>, None), s')"
proof -
  let ?cb = "\<lparr>lf_Uid = 5, lf_Location = 3, lf_Address = [], lf_Port = 0\<rparr>"
  obtain c where c: "small_reachable c" "gets (c_los c 2) 0 = GResumed get5 ?cb" using small_resumed by blast
  have "nc_prefix small_cluster = ''node''" "nc_los_port small_cluster = 50000" by (simp_all add: small_cluster_def)
  with cluster_callback_is_backed[OF tbl.sqlite_axioms c] c show ?thesis
    by (intro exI[of _ c] exI[of _ ?cb]) auto
qed

lemma pc_ok_request: "pc_ok call v p \<Longrightarrow> request_of p = Some r \<Longrightarrow> run_ok v r"
  by (cases p) auto

lemma pc_ok_output:
  assumes "pc_ok call (world nc c) p" "p \<in> {RExecuted r bs, RStoring r bs}" "run_Uid r \<noteq> 0"
  shows "\<exists>f. functionStore (c_ft c) (run_Name r) = Some f \<and>
    executeFunction (execute_py call) f (run_Args r) (run_Kwargs r) = Return (Some bs, None)"
proof -
  have "task_result call (world nc c) (run_Uid r) = Some bs" "run_ok (world nc c) r" using assms by auto
  with task_resultD[OF this(1)] assms(3) show ?thesis by (auto simp: run_ok_def world_def)
qed

text \<open>C7 Requests stay true to the task: every request to run or place a task that is in flight, sent to be
  recorded or recorded as lineage, or anywhere in a worker's \<open>Run\<close>, from the queue to the call of
  \<open>Store\<close>, carries the function, the arguments and the keyword arguments that were submitted under its
  uid. The function a worker has fetched for it is the one registered under that name, and the output it is
  about to store is what executing that function on those arguments yields. Requests with uid 0 are left
  out: the empty request, which is about no task, carries it.\<close>

theorem cluster_requests_are_faithful:
  assumes "sqlite drv rows saved" "cluster_reachable nc drv call rows c"
  shows "(\<forall>addr r. MRun addr r \<in># c_net c \<and> run_Uid r \<noteq> 0 \<longrightarrow>
      (\<exists>t. c_tasks c (run_Uid r) = Some t \<and> describes t (run_Name r, run_Args r, run_Kwargs r))) \<and>
    (\<forall>g. (MSchedule g \<in># c_net c \<or> MLineage g \<in># c_net c \<or> (\<exists>u. lineage (c_gcs c) u = Some g)) \<and> gs_Uid g \<noteq> 0 \<longrightarrow>
      (\<exists>t. c_tasks c (gs_Uid g) = Some t \<and> describes t (gs_Name g, gs_Args g, gs_Kwargs g))) \<and>
    (\<forall>n p r. p \<in># tasks (c_worker c n) \<and> request_of p = Some r \<and> run_Uid r \<noteq> 0 \<longrightarrow>
      (\<exists>t. c_tasks c (run_Uid r) = Some t \<and> describes t (run_Name r, run_Args r, run_Kwargs r)) \<and>
      (\<forall>f. p = RFetched r f \<longrightarrow> functionStore (c_ft c) (run_Name r) = Some f) \<and>
      (\<forall>bs. p \<in> {RExecuted r bs, RStoring r bs} \<longrightarrow> (\<exists>f. functionStore (c_ft c) (run_Name r) = Some f \<and>
         executeFunction (execute_py call) f (run_Args r) (run_Kwargs r) = Return (Some bs, None))))"
proof -
  note inv = cluster_invD[OF cluster_reachable_inv[OF assms]]
  have run: "\<exists>t. c_tasks c (run_Uid r) = Some t \<and> describes t (run_Name r, run_Args r, run_Kwargs r)"
    if "run_ok (world nc c) r" "run_Uid r \<noteq> 0" for r
    using that by (auto simp: run_ok_def world_def describes_def)
  have sched: "\<exists>t. c_tasks c (gs_Uid g) = Some t \<and> describes t (gs_Name g, gs_Args g, gs_Kwargs g)"
    if "sched_ok (world nc c) g" "gs_Uid g \<noteq> 0" for g
    using that by (auto simp: sched_ok_def world_def describes_def)
  show ?thesis
  proof (intro conjI allI impI; elim conjE)
    fix addr r assume "MRun addr r \<in># c_net c" "run_Uid r \<noteq> 0"
    then show "\<exists>t. c_tasks c (run_Uid r) = Some t \<and> describes t (run_Name r, run_Args r, run_Kwargs r)"
      using run inv(1)[of "MRun addr r"] by simp
  next
    fix g assume g: "MSchedule g \<in># c_net c \<or> MLineage g \<in># c_net c \<or> (\<exists>u. lineage (c_gcs c) u = Some g)"
      and "gs_Uid g \<noteq> 0"
    moreover have "sched_ok (world nc c) g"
      using g inv(1)[of "MSchedule g"] inv(1)[of "MLineage g"] inv(3) by (auto simp: gcs_ok_def)
    ultimately show "\<exists>t. c_tasks c (gs_Uid g) = Some t \<and> describes t (gs_Name g, gs_Args g, gs_Kwargs g)"
      using sched by blast
  next
    fix n p r assume p: "p \<in># tasks (c_worker c n)" "request_of p = Some r" "run_Uid r \<noteq> 0"
    note ok = inv(4)[OF p(1)]
    show "\<exists>t. c_tasks c (run_Uid r) = Some t \<and> describes t (run_Name r, run_Args r, run_Kwargs r)"
      by (rule run[OF pc_ok_request[OF ok p(2)] p(3)])
    show "functionStore (c_ft c) (run_Name r) = Some f" if "p = RFetched r f" for f
      using ok that by (simp add: world_def)
    show "\<exists>f. functionStore (c_ft c) (run_Name r) = Some f \<and>
        executeFunction (execute_py call) f (run_Args r) (run_Kwargs r) = Return (Some bs, None)"
      if "p \<in> {RExecuted r bs, RStoring r bs}" for bs
      by (rule pc_ok_output[OF ok that p(3)])
  qed
qed

lemma small_executing:
  "\<exists>c. small_reachable c \<and> c_tasks c 5 = Some task5 \<and> RStoring (run_of 5 task5) [9, 4] \<in># tasks (c_worker c 3)"
proof -
  have five: "TruncateHighBit 5 = 5" by (rule TruncateHighBit_id) simp
  have node: "3 \<in> nc_nodes small_cluster" by (simp add: small_cluster_def)
  have new: "c_down small_started = {}" "c_worker small_started = (\<lambda>_. new_worker)" "c_tasks small_started = Map.empty"
    "c_ft small_started = \<lparr>functionStore = [7 \<mapsto> [9]]\<rparr>"
    by (simp_all add: small_started_def new_cluster_def)
  obtain N where 1: "cluster_step small_cluster table_driver appending small_started
      (small_started\<lparr>c_tasks := [5 \<mapsto> task5],
         c_net := add_mset (MRun (worker_addr small_cluster 3) (run_of 5 task5)) N\<rparr>)"
    using can_submit[OF node, of small_started task5 5 5 table_driver appending] by (auto simp: new new_worker_def five)
  let ?c1 = "small_started\<lparr>c_tasks := [5 \<mapsto> task5], c_net := add_mset (MRun (worker_addr small_cluster 3) (run_of 5 task5)) N\<rparr>"
  let ?c = "\<lambda>w. small_started\<lparr>c_tasks := [5 \<mapsto> task5], c_net := N, c_worker := (c_worker small_started)(3 := w)\<rparr>"
  let ?q = "new_worker\<lparr>numQueuedTasks := 1, tasks := {#RQueued (run_of 5 task5)#}\<rparr>"
  have 2: "cluster_step small_cluster table_driver appending ?c1 (?c ?q)"
    by (rule step_to[OF cluster_step.runs[OF node, of ?c1 "run_of 5 task5" N]])
      (auto simp: new new_worker_def Run_enter_def intro: cluster.equality)
  have out: "executeFunction (execute_py appending) [9] (run_Args (run_of 5 task5)) (run_Kwargs (run_of 5 task5)) = Return (Some [9, 4], None)"
    by (simp add: executeFunction_def execute_py_payload appending_def run_of_def del: EncodeToString.simps)
  obtain w where 3: "small_steps (?c ?q) (?c w)" and w: "tasks w = {#RStoring (run_of 5 task5) [9, 4]#}"
    using can_execute[OF node, of ?q "run_of 5 task5" "{#}" "small_started\<lparr>c_tasks := [5 \<mapsto> task5], c_net := N\<rparr>"
        "[9]" appending "[9, 4]" table_driver] out
    by (auto simp: new new_worker_def run_of_def)
  have "small_steps small_started (?c w)"
    by (rule converse_rtranclp_into_rtranclp[OF 1 converse_rtranclp_into_rtranclp[OF 2 3]])
  then have "small_reachable (?c w)" by (rule cluster_reachable_steps[OF small_started_reachable])
  with w show ?thesis by (intro exI[of _ "?c w"]) simp
qed

theorem cluster_requests_are_faithful_witness:
  "\<exists>c t f. small_reachable c \<and> RStoring (run_of 5 task5) [9, 4] \<in># tasks (c_worker c 3) \<and> c_tasks c 5 = Some t \<and>
     describes t (7, [4], []) \<and> functionStore (c_ft c) 7 = Some f \<and>
     executeFunction (execute_py appending) f [4] [] = Return (Some [9, 4], None)"
proof -
  obtain c where c: "small_reachable c" "RStoring (run_of 5 task5) [9, 4] \<in># tasks (c_worker c 3)"
    using small_executing by blast
  have r: "run_Uid (run_of 5 task5) = 5" "run_Name (run_of 5 task5) = 7" "run_Args (run_of 5 task5) = [4]"
    "run_Kwargs (run_of 5 task5) = []" by (simp_all add: run_of_def)
  from cluster_requests_are_faithful[OF tbl.sqlite_axioms c(1), THEN conjunct2, THEN conjunct2, rule_format,
      of "RStoring (run_of 5 task5) [9, 4]" 3 "run_of 5 task5"] c
  show ?thesis by (auto simp: r)
qed

section \<open>Delivery\<close>

text \<open>C3 The cluster can do its work from every reachable state: when node \<open>n\<close> has a free slot and
  its processes are up, a task submitted there under a fresh uid whose function is registered,
  returns a value and prints nothing can be run, announced and fetched, so that a \<open>Get\<close> on any node \<open>m\<close>, be it
  \<open>n\<close> itself, that was waiting for it all along returns the function's result, and keeps it in its own store when it was
  asked to.\<close>

theorem cluster_delivers:
  assumes "sqlite_available drv rows saved" "cluster_reachable nc drv call rows c"
    and "n \<in> nc_nodes nc" "PLocalSched n \<notin> c_down c" "PObjStore n \<notin> c_down c"
    and "m \<in> nc_nodes nc" "PObjStore m \<notin> c_down c" "gets (c_los c m) i = GIdle" "lfs (c_los c m) j = LIdle"
    and "fatal (c_worker c n) = None" "semaphore (c_worker c n) < 10" "numRunningTasks (c_worker c n) < 10"
      "w_alive (c_worker c n)"
    and "uid = TruncateHighBit r" "uid \<noteq> 0" "c_tasks c uid = None" "sr_NodeId t = 0"
    and "functionStore (c_ft c) (sr_Name t) = Some f" "call f (sr_Args t) (sr_Kwargs t) = ([], Inr result)"
    and "result \<noteq> []" "length result \<le> max_recv GetServerOptions"
    and "get_Uid req = uid" "get_Copy req" "\<not> get_Testing req"
  shows "\<exists>c'. cluster_steps nc drv call c c' \<and> c_tasks c' uid = Some t \<and>
    (m, req, (Some (fetched req result), None)) \<in> set (c_answers c') \<and>
    (get_Cache req \<longrightarrow> holds (srv (c_los c' m)) uid result)"
proof -
  obtain c1 where c1: "cluster_steps nc drv call c c1" "c_tasks c1 = (c_tasks c)(uid \<mapsto> t)" "c_down c1 = c_down c"
    "c_copied c1 m i = None" "gets (c_los c1 m) i = GResumed req \<lparr>lf_Uid = uid, lf_Location = n, lf_Address = [], lf_Port = 0\<rparr>"
    "holds (srv (c_los c1 n)) uid result"
    using can_resume[OF assms(1-22,24)] by blast
  show ?thesis by (rule can_deliver[OF c1 assms(6,7,3,5) assms(22,23)])
qed

theorem cluster_delivers_witness:
  "\<exists>c. small_steps small_started c \<and> c_tasks c 5 = Some task5 \<and>
     (2, get5\<lparr>get_Cache := True\<rparr>, (Some \<lparr>gresp_Uid = 5, gresp_ObjectBytes = [9, 4], gresp_Local = False, gresp_Size = 2\<rparr>, None))
       \<in> set (c_answers c) \<and> holds (srv (c_los c 2)) 5 [9, 4]"
proof -
  have five: "TruncateHighBit 5 = 5" by (rule TruncateHighBit_id) simp
  let ?req = "get5\<lparr>get_Cache := True\<rparr>"
  have "\<exists>c. small_steps small_started c \<and> c_tasks c 5 = Some task5 \<and>
      (2, ?req, (Some (fetched ?req [9, 4]), None)) \<in> set (c_answers c) \<and> (get_Cache ?req \<longrightarrow> holds (srv (c_los c 2)) 5 [9, 4])"
    by (rule cluster_delivers[OF tbl.sqlite_available_axioms small_started_reachable, where n = 3 and r = 5 and f = "[9]"
          and i = 0 and j = 0])
      (simp_all add: small_started_def small_cluster_def new_cluster_def new_worker_def los_start_def appending_def
        GetServerOptions_def five)
  then show ?thesis by (simp add: fetched_def)
qed

end
