(* ===== verification/Cluster_Load.thy ===== *)
theory Cluster_Load
  imports Cluster_Props Global_Scheduler_Props
begin

text \<open>
  What the global scheduler knows of the nodes while the cluster runs: heartbeats overtake each other, get
  lost and grow old, but every number in its table is one that a worker and a store reported, so that a
  task it is asked to place finds a node as long as one was heard of lately.
\<close>

section \<open>Numbers that were reported\<close>

text \<open>
  Steps in which the clock is sane: the time a task is seen to take fits the 64 bits of a \<open>Duration\<close> and
  is not negative.
\<close>

definition clocked_cluster_step ::
  "wiring \<Rightarrow> 'db sql_driver \<Rightarrow> (bytes \<Rightarrow> bytes \<Rightarrow> bytes \<Rightarrow> string \<times> (string + bytes)) \<Rightarrow>
     'db cluster \<Rightarrow> 'db cluster \<Rightarrow> bool" where
  "clocked_cluster_step nc drv call c c' \<longleftrightarrow>
     cluster_step nc drv call c c' \<and> (\<forall>n. clocked_step\<^sup>*\<^sup>* (c_worker c n) (c_worker c' n))"

definition beat_ok :: "wiring \<Rightarrow> HeartbeatRequest \<Rightarrow> bool" where
  "beat_ok nc hb \<longleftrightarrow> hb_NodeId hb \<in> nc_nodes nc \<and> unat (hb_RunningTasks hb) \<le> 10 \<and>
     fl_upto limit (hb_AvgRunningTime hb) \<and> hb_AvgBandwidth hb = DEFAULT_AVG_BANDWIDTH"

definition entry_ok :: "wiring \<Rightarrow> u64 \<Rightarrow> HeartbeatEntry \<Rightarrow> bool" where
  "entry_ok nc k h \<longleftrightarrow> k \<in> nc_nodes nc \<and> unat (he_numRunningTasks h) \<le> 10 \<and>
     fl_upto limit (he_avgRunningTime h) \<and> he_avgBandwidth h = DEFAULT_AVG_BANDWIDTH"

definition load_inv :: "wiring \<Rightarrow> 'db cluster \<Rightarrow> bool" where
  "load_inv nc c \<longleftrightarrow>
     (\<forall>n. worker_inv (c_worker c n)) \<and> (\<forall>n. fl_upto limit (averageRunningTime (c_worker c n))) \<and>
     (\<forall>n. avgBandwidth (srv (c_los c n)) = DEFAULT_AVG_BANDWIDTH) \<and>
     (\<forall>hb. MBeat hb \<in># c_net c \<longrightarrow> beat_ok nc hb) \<and>
     (\<forall>k h. gs_status (c_gs c) k = Some h \<longrightarrow> entry_ok nc k h)"

lemma entry_sane: "entry_ok nc k h \<Longrightarrow> sane h"
  by (simp add: entry_ok_def sane_def DEFAULT_AVG_BANDWIDTH_def ema_consts)

lemma retry_answer: "retry b answers = Some (x, sleeps, rest) \<Longrightarrow> Inr x \<in> set answers"
  by (induction b answers arbitrary: sleeps rule: retry.induct) (auto split: option.splits)

lemma answered_Inr: "answered (Inr x) (Some y, None) \<longleftrightarrow> x = y"
  by (auto simp: answered_def client_sees_def)

lemma worker_inv_running: "worker_inv w \<Longrightarrow> unat (numRunningTasks w) \<le> 10"
  using running_holding[of w] by (auto simp: worker_inv_def MAX_CONCURRENT_TASKS_def unat_of_nat take_bit_nat_eq_self)

lemma heartbeat_round_ok:
  assumes inv: "load_inv nc c" and n: "n \<in> nc_nodes nc"
    and sts: "\<forall>a \<in> set sts. answered a (WorkerStatus (c_worker c n))"
    and bws: "\<forall>a \<in> set bws. answered a (AvgBandwidth (srv (c_los c n)))"
    and hb: "heartbeat_round sts bws n (c_ls c n) = Some (Some hb, ms)"
  shows "beat_ok nc hb"
proof -
  obtain st p q bw p' q' where "retry 1 sts = Some (st, p, q)" "retry 1 bws = Some (bw, p', q')"
    and r: "hb = \<lparr>hb_RunningTasks = ws_NumRunningTasks st, hb_QueuedTasks = ws_NumQueuedTasks st,
           hb_AvgRunningTime = ws_AverageRunningTime st, hb_AvgBandwidth = bw_AvgBandwidth bw, hb_NodeId = n\<rparr>"
    using hb by (auto simp: heartbeat_round_def split: if_splits option.splits)
  then have "Inr st \<in> set sts" "Inr bw \<in> set bws" by (auto dest: retry_answer)
  with sts bws have "ws_NumRunningTasks st = numRunningTasks (c_worker c n)"
    "ws_AverageRunningTime st = averageRunningTime (c_worker c n)" "bw_AvgBandwidth bw = avgBandwidth (srv (c_los c n))"
    by (auto simp: WorkerStatus_def AvgBandwidth_def answered_Inr dest!: bspec)
  with r n inv worker_inv_running[of "c_worker c n"] show ?thesis by (simp add: beat_ok_def load_inv_def)
qed

lemma Heartbeat_ok:
  assumes "beat_ok nc hb" "\<forall>k h. gs_status s k = Some h \<longrightarrow> entry_ok nc k h" "Heartbeat now hb s = (r, s')"
  shows "\<forall>k h. gs_status s' k = Some h \<longrightarrow> entry_ok nc k h"
  using assms by (auto simp: Heartbeat_def Let_def beat_ok_def entry_ok_def split: if_splits)

section \<open>Nothing else makes heartbeats\<close>

lemma no_beat:
  "MBeat hb \<notin># post (ls_msg nc n) xs" "MBeat hb \<notin># post gs_msg ys" "MBeat hb \<notin># post (los_msg n) zs"
  "MBeat hb \<notin># post gcs_msg ws"
proof -
  have "ls_msg nc n x \<noteq> Some (MBeat hb)" for x by (cases x) auto
  moreover have "gs_msg x \<noteq> Some (MBeat hb)" for x by (cases x) auto
  moreover have "los_msg n x \<noteq> Some (MBeat hb)" for x by (cases x) auto
  moreover have "gcs_msg x \<noteq> Some (MBeat hb)" for x by (cases x) auto
  ultimately show "MBeat hb \<notin># post (ls_msg nc n) xs" "MBeat hb \<notin># post gs_msg ys"
    "MBeat hb \<notin># post (los_msg n) zs" "MBeat hb \<notin># post gcs_msg ws"
    by (auto simp: post_def List.map_filter_def)
qed

lemma load_step:
  assumes "cluster_step nc drv call c c'" "load_inv nc c"
  shows "(\<forall>hb. MBeat hb \<in># c_net c' \<longrightarrow> beat_ok nc hb) \<and> (\<forall>k h. gs_status (c_gs c') k = Some h \<longrightarrow> entry_ok nc k h)"
proof -
  have old: "\<And>hb. MBeat hb \<in># c_net c \<Longrightarrow> beat_ok nc hb" "\<forall>k h. gs_status (c_gs c) k = Some h \<longrightarrow> entry_ok nc k h"
    using assms(2) by (auto simp: load_inv_def)
  from assms(1) show ?thesis
  proof (cases rule: cluster_step.cases)
    case (beats n sts bws hb ms)
    then show ?thesis using old heartbeat_round_ok[OF assms(2) beats(2,4,5,6)] by auto
  next
    case (hears hb N now r gs')
    then show ?thesis using old Heartbeat_ok[OF _ old(2) hears(4)] by auto
  qed (use old in \<open>auto simp: no_beat\<close>)
qed

interpretation ld: step_invariant "clocked_cluster_step nc drv call" "load_inv nc" for nc drv call
proof
  fix c c' assume c: "clocked_cluster_step nc drv call c c'" and inv: "load_inv nc c"
  then have step: "cluster_step nc drv call c c'" by (simp add: clocked_cluster_step_def)
  have "worker_inv (c_worker c' n)" for n
    using ws.steps_inv[OF wp.step_part[OF step]] inv by (simp add: load_inv_def)
  moreover have "fl_upto limit (averageRunningTime (c_worker c' n))" for n
    using av.steps_inv[of "c_worker c n" "c_worker c' n"] c inv by (simp add: load_inv_def clocked_cluster_step_def)
  moreover have "avgBandwidth (srv (c_los c' n)) = DEFAULT_AVG_BANDWIDTH" for n
    using bw.steps_inv[OF lp.step_part[OF step]] inv by (simp add: load_inv_def)
  ultimately show "load_inv nc c'" using load_step[OF step inv] by (simp add: load_inv_def)
qed

lemma load_inv_new: "load_inv nc (new_cluster g ms)"
proof -
  have "fl_upto limit (averageRunningTime new_worker)" by (simp add: new_worker_def ema_consts fl_upto_def)
  then show ?thesis
    by (simp add: load_inv_def new_cluster_def worker_inv_new los_start_def new_los_def)
qed

section \<open>Placing a task\<close>

text \<open>C8 Whatever the cluster did before, with heartbeats overtaking each other, lost or late, every entry in
  the global scheduler's table is about a node of the cluster and has numbers a worker and a store can
  have: at most ten running tasks, an average running time that is a number between zero and
  \<open>2 ^ 34\<close> seconds, a positive bandwidth. So as long as one node was heard of in the last 400 ms, a task
  whose node is left open is placed: the scheduler announces as generating, and calls, the worker of one node
  of the cluster, with the task's own function and arguments. In the locality branch that takes an
  answer to the query for locations, and no further heartbeat of that node in between.\<close>

theorem cluster_places_tasks:
  assumes "(clocked_cluster_step nc drv call)\<^sup>*\<^sup>* (new_cluster g ms) c"
    and "gs_status (c_gs c) k = Some h" "clock k - timeReceived h < 400000000"
    and "map_order keys (gs_status (c_gs c))" "gs_NodeId req = 0"
    and "gs_LocalityFlag req \<and> gs_Uids req \<noteq> [] \<longrightarrow> (\<exists>resp. locations = Inr resp) \<and>
           gs_status (fst (seen k)) k = Some h \<and> gs_status (snd (seen k)) k = Some h"
  shows "k \<in> nc_nodes nc \<and> unat (he_numRunningTasks h) \<le> 10 \<and>
    (he_avgRunningTime h = Zero False \<or> (\<exists>q. he_avgRunningTime h = Fin q \<and> 0 < q \<and> q \<le> 2 ^ 34)) \<and>
    (\<exists>b. he_avgBandwidth h = Fin b \<and> 0 < b) \<and>
    (\<exists>n asked. n \<in> nc_nodes nc \<and>
       gs_Schedule (nc_prefix nc) (nc_worker_port nc)
         (getBestWorker clock keys locations us (gs_LocalityFlag req) (gs_Uids req) (c_gs c) seen)
         None (Inr (status True)) req =
       (Return (Some (status True), None), asked @
         [GCallRegisterGenerating \<lparr>gen_Uid = gs_Uid req, gen_NodeId = n\<rparr>,
          GCallRun (worker_addr nc n) \<lparr>run_Uid = gs_Uid req, run_Name = gs_Name req, run_Args = gs_Args req,
            run_Kwargs = gs_Kwargs req\<rparr>]))"
proof -
  have ok: "entry_ok nc j e" if "gs_status (c_gs c) j = Some e" for j e
    using ld.steps_inv[OF assms(1) load_inv_new] that by (simp add: load_inv_def)
  note h = ok[OF assms(2)]
  let ?best = "getBestWorker clock keys locations us (gs_LocalityFlag req) (gs_Uids req) (c_gs c) seen"
  have "\<exists>n. fst ?best = Return n"
    by (rule getBestWorker_Return[of keys "c_gs c" k _ _ seen h clock h])
      (use assms(2-4,6) entry_sane[OF h] in \<open>auto simp: live_def LIVE_NODE_TIMEOUT_def\<close>)
  then obtain n where n: "fst ?best = Return n" by blast
  have "n \<in> set keys" by (rule pick_Return(1)[OF getBestWorker_pick[OF n]])
  then obtain e where "gs_status (c_gs c) n = Some e" using assms(4) by (auto simp: map_order_def)
  with ok have "n \<in> nc_nodes nc" by (auto simp: entry_ok_def)
  moreover have "gs_Schedule (nc_prefix nc) (nc_worker_port nc) ?best None (Inr (status True)) req =
      (Return (Some (status True), None), snd ?best @
         [GCallRegisterGenerating \<lparr>gen_Uid = gs_Uid req, gen_NodeId = n\<rparr>,
          GCallRun (worker_addr nc n) \<lparr>run_Uid = gs_Uid req, run_Name = gs_Name req, run_Args = gs_Args req,
            run_Kwargs = gs_Kwargs req\<rparr>])"
    using n assms(5) by (cases ?best) (simp add: gs_Schedule_def worker_addr_def status_def Let_def)
  moreover have "he_avgRunningTime h = Zero False \<or> (\<exists>q. he_avgRunningTime h = Fin q \<and> 0 < q \<and> q \<le> 2 ^ 34)"
    using h fl_upto_numeral[of limit] by (simp add: entry_ok_def)
  moreover have "\<exists>b. he_avgBandwidth h = Fin b \<and> 0 < b"
    using entry_sane[OF h] by (intro exI[of _ "13421773 / 134217728"]) (simp add: sane_def)
  ultimately show ?thesis using h unfolding entry_ok_def by blast
qed

text \<open>A heartbeat of a node that is up reaches the global scheduler.\<close>

lemma clocked_idle: "cluster_step nc drv call c c' \<Longrightarrow> c_worker c' = c_worker c \<Longrightarrow> clocked_cluster_step nc drv call c c'"
  by (simp add: clocked_cluster_step_def)

lemma clocked_steps: "(clocked_cluster_step nc drv call)\<^sup>*\<^sup>* c c' \<Longrightarrow> cluster_steps nc drv call c c'"
  by (induction rule: rtranclp_induct) (auto simp: clocked_cluster_step_def)

lemma can_hear:
  assumes "n \<in> nc_nodes nc" "PLocalSched n \<notin> c_down c" "PGlobalSched \<notin> c_down c" "ls_alive (c_ls c n)"
  shows "\<exists>h. (clocked_cluster_step nc drv call)\<^sup>*\<^sup>* c (c\<lparr>c_gs := (c_gs c)\<lparr>gs_status := (gs_status (c_gs c))(n \<mapsto> h)\<rparr>\<rparr>) \<and>
    timeReceived h = now \<and> he_avgRunningTime h = averageRunningTime (c_worker c n) \<and>
    he_avgBandwidth h = avgBandwidth (srv (c_los c n))"
proof -
  let ?st = "client_sees (WorkerStatus (c_worker c n))" and ?bw = "client_sees (AvgBandwidth (srv (c_los c n)))"
  obtain hb ms where hb: "heartbeat_round [?st] [?bw] n (c_ls c n) = Some (Some hb, ms)" "hb_NodeId hb = n"
    "hb_AvgRunningTime hb = averageRunningTime (c_worker c n)" "hb_AvgBandwidth hb = avgBandwidth (srv (c_los c n))"
    using assms(4) by (simp add: heartbeat_round_def client_sees_def WorkerStatus_def AvgBandwidth_def)
  let ?c1 = "c\<lparr>c_net := add_mset (MBeat hb) (c_net c)\<rparr>" and ?gs = "snd (Heartbeat now hb (c_gs c))"
  have "cluster_step nc drv call c ?c1"
    by (rule cluster_step.beats[OF assms(1,2) _ _ hb(1)]) (simp_all add: answered_def)
  then have 1: "clocked_cluster_step nc drv call c ?c1" by (rule clocked_idle) simp
  have "cluster_step nc drv call ?c1 (c\<lparr>c_gs := ?gs\<rparr>)"
    by (rule step_to[OF cluster_step.hears[of ?c1 hb "c_net c" now "fst (Heartbeat now hb (c_gs c))" ?gs]])
      (use assms(3) in \<open>auto intro: cluster.equality\<close>)
  then have 2: "clocked_cluster_step nc drv call ?c1 (c\<lparr>c_gs := ?gs\<rparr>)" by (rule clocked_idle) simp
  obtain h where h: "?gs = (c_gs c)\<lparr>gs_status := (gs_status (c_gs c))(n \<mapsto> h)\<rparr>" "timeReceived h = now"
    "he_avgRunningTime h = averageRunningTime (c_worker c n)" "he_avgBandwidth h = avgBandwidth (srv (c_los c n))"
    using hb by (simp add: Heartbeat_def Let_def)
  from 1 2 have "(clocked_cluster_step nc drv call)\<^sup>*\<^sup>* c (c\<lparr>c_gs := ?gs\<rparr>)" by simp
  with h show ?thesis by metis
qed

theorem cluster_places_tasks_witness:
  "\<exists>(c :: table cluster) h n. small_steps (new_cluster (server_with Map.empty []) (\<lambda>_. idle_machine)) c \<and>
     gs_status (c_gs c) 3 = Some h \<and> unat (he_numRunningTasks h) \<le> 10 \<and> n \<in> {2, 3} \<and>
     GCallRun (worker_addr small_cluster n) \<lparr>run_Uid = 5, run_Name = 7, run_Args = [4], run_Kwargs = []\<rparr> \<in>
       set (snd (gs_Schedule ''node'' 50002 (getBestWorker (\<lambda>_. 0) [3] (Inl (PlainError [])) [] False [] (c_gs c) undefined)
         None (Inr (status True)) (global_request 5 task5)))"
proof -
  let ?c0 = "new_cluster (server_with Map.empty []) (\<lambda>_. idle_machine)"
  have "3 \<in> nc_nodes small_cluster" "c_down ?c0 = {}" "ls_alive (c_ls ?c0 3)" "c_gs ?c0 = \<lparr>gs_status = Map.empty\<rparr>"
    by (simp_all add: small_cluster_def new_cluster_def)
  then obtain h where c: "(clocked_cluster_step small_cluster table_driver appending)\<^sup>*\<^sup>* ?c0 (?c0\<lparr>c_gs := \<lparr>gs_status = [3 \<mapsto> h]\<rparr>\<rparr>)"
    and h: "timeReceived h = 0"
    using can_hear[of 3 small_cluster ?c0 table_driver appending 0] by auto
  let ?c = "?c0\<lparr>c_gs := \<lparr>gs_status = [3 \<mapsto> h]\<rparr>\<rparr>" and ?g = "global_request 5 task5"
  have g: "gs_NodeId ?g = 0" "gs_LocalityFlag ?g = False" "gs_Uids ?g = []" "gs_Uid ?g = 5" "gs_Name ?g = 7"
    "gs_Args ?g = [4]" "gs_Kwargs ?g = []" by (simp_all add: global_request_def)
  from cluster_places_tasks[OF c, of 3 h "\<lambda>_. 0" "[3]" ?g "Inl (PlainError [])" undefined "[]"] h g
  obtain n asked where "unat (he_numRunningTasks h) \<le> 10" "n \<in> nc_nodes small_cluster"
    "gs_Schedule (nc_prefix small_cluster) (nc_worker_port small_cluster)
       (getBestWorker (\<lambda>_. 0) [3] (Inl (PlainError [])) [] False [] (c_gs ?c) undefined) None (Inr (status True)) ?g =
     (Return (Some (status True), None), asked @ [GCallRegisterGenerating \<lparr>gen_Uid = 5, gen_NodeId = n\<rparr>,
        GCallRun (worker_addr small_cluster n) \<lparr>run_Uid = 5, run_Name = 7, run_Args = [4], run_Kwargs = []\<rparr>])"
    by (auto simp: map_order_def)
  then show ?thesis using clocked_steps[OF c]
    by (intro exI[of _ ?c] exI[of _ h] exI[of _ n]) (simp add: small_cluster_def)
qed

end
