(* ===== verification/Cluster_Recovery.thy ===== *)
theory Cluster_Recovery
  imports Cluster_Load
begin

text \<open>
  Recovery in the running cluster: a task whose nodes fell silent is handed out again, runs on a
  node that is alive, and a client that has been waiting all along gets its result.
\<close>

section \<open>Noticing\<close>

lemma can_report:
  assumes "PGlobalSched \<notin> c_down c" "map_order keys (gs_status (c_gs c))"
  shows "cluster_step nc drv call c (c\<lparr>c_net := add_mset (MLive
    \<lparr>ln_LiveNodes = (\<lambda>k. map_option (live (clock k)) (gs_status (c_gs c) k))\<rparr>) (c_net c)\<rparr>)"
  by (rule step_to[OF cluster_step.reports[OF assms, of nc drv call clock]])
    (simp add: SendLiveNodes_map[OF assms(2)])

text \<open>While a client waits for an object, only the node that generates it can stand for it.\<close>

lemma waiting_nodes:
  assumes "sqlite drv rows saved" "cluster_reachable nc drv call rows c"
    and "addr \<in> set (lookup_list (waitlist (c_gcs c)) u)"
  shows "getNodes u (c_gcs c) = (case generating (c_gcs c) u of Some d \<Rightarrow> [d] | None \<Rightarrow> [])"
proof -
  obtain opened sec g ms where g: "NewGCSObjServer drv opened sec = Return g"
    and "cluster_steps nc drv call (new_cluster g ms) c"
    using assms(2) by (auto simp: cluster_reachable_def)
  then obtain gos where "gcs_reach drv (nc_los_port nc) g gos (c_gcs c)"
    using gcs_part[of nc drv call "new_cluster g ms" c] by (auto simp: new_cluster_def)
  then have "gcs_inv rows (c_gcs c)" by (rule sqlite.gcs_reach_inv[OF assms(1) _ new_gcs_inv[OF g]])
  moreover have "waitlist (c_gcs c) u \<noteq> None" using assms(3) by (cases "waitlist (c_gcs c) u") (auto simp: lookup_list_def)
  ultimately have "lookup_list (objectLocations (c_gcs c)) u = []"
    using gcs_invD(1) locs_empty_iff by blast
  then show ?thesis by (auto simp: getNodes_def lookup_list_def split: option.splits)
qed

text \<open>The object table hands the lineage of a lost object to the global scheduler.\<close>

lemma can_reschedule:
  assumes net: "c_net c = add_mset (MLive l) N" and us: "distinct us" "set us = known_uids (c_gcs c)"
    and lost: "uid \<in> known_uids (c_gcs c)" "\<forall>d \<in> set (getNodes uid (c_gcs c)). \<not> lookup_bool (ln_LiveNodes l) d"
    and g: "lineage (c_gcs c) uid = Some g"
  shows "\<exists>G. cluster_steps nc drv call c (c\<lparr>c_gcs := (c_gcs c)\<lparr>liveNodes := ln_LiveNodes l\<rparr>, c_gos := G,
    c_net := add_mset (MSchedule g) N\<rparr>)"
proof -
  let ?g = "(c_gcs c)\<lparr>liveNodes := ln_LiveNodes l\<rparr>"
  obtain gos where ex: "gcs_exec drv (nc_los_port nc) (OpLiveNodes us l) (c_gcs c) = (gos, ?g)"
    and go: "GoSchedule uid \<in> set gos"
    using RegisterLiveNodes_starts(1)[OF _ lost(2), of us] lost(1) us(2)
    by (auto simp: RegisterLiveNodes_def Let_def)
  then obtain G where G: "c_gos c + mset gos = add_mset (GoSchedule uid) G"
    by (metis in_multiset_in_set mset_add union_iff)
  let ?c1 = "c\<lparr>c_gcs := ?g, c_gos := c_gos c + mset gos, c_net := N\<rparr>"
  have "cluster_step nc drv call c ?c1"
    by (rule cluster_step.gcs_handles[OF net _ _ ex]) (use us in simp_all)
  moreover have "cluster_step nc drv call ?c1 (c\<lparr>c_gcs := ?g, c_gos := G, c_net := add_mset (MSchedule g) N\<rparr>)"
    by (rule step_to[OF cluster_step.goes[of ?c1 "GoSchedule uid" G nc drv call None]])
      (use G g in \<open>auto intro: cluster.equality\<close>)
  ultimately show ?thesis by (meson converse_rtranclp_into_rtranclp r_into_rtranclp)
qed

section \<open>Placing\<close>

lemma can_place:
  assumes net: "c_net c = add_mset (MSchedule g) N" and up: "PGlobalSched \<notin> c_down c"
    and keys: "map_order keys (gs_status (c_gs c))" and g: "gs_NodeId g = 0" "\<not> gs_LocalityFlag g"
    and k: "gs_status (c_gs c) k = Some h" "live (clock k) h" "sane h"
  shows "\<exists>n h' N'. gs_status (c_gs c) n = Some h' \<and> live (clock n) h' \<and>
    cluster_step nc drv call c (c\<lparr>c_net := add_mset (MRun (worker_addr nc n) \<lparr>run_Uid = gs_Uid g, run_Name = gs_Name g,
      run_Args = gs_Args g, run_Kwargs = gs_Kwargs g\<rparr>) N'\<rparr>)"
proof -
  let ?best = "getBestWorker clock keys (Inl (PlainError [])) [] (gs_LocalityFlag g) (gs_Uids g) (c_gs c) undefined"
  obtain n where n: "fst ?best = Return n"
    using getBestWorker_Return[of keys "c_gs c" k "gs_LocalityFlag g" "gs_Uids g" undefined h clock h] keys k g(2) by auto
  have best: "?best = (Return n, [])" using n g(2) by (simp add: getBestWorker_def)
  obtain h' where h': "gs_status (c_gs c) n = Some h'" "live (clock n) h'"
    using getBestWorker_live[OF n] g(2) by auto
  let ?run = "\<lparr>run_Uid = gs_Uid g, run_Name = gs_Name g, run_Args = gs_Args g, run_Kwargs = gs_Kwargs g\<rparr>"
  have "gs_Schedule (nc_prefix nc) (nc_worker_port nc) ?best None (Inr (status True)) g =
      (Return (Some (status True), None),
       [GCallRegisterGenerating \<lparr>gen_Uid = gs_Uid g, gen_NodeId = n\<rparr>, GCallRun (worker_addr nc n) ?run])"
    using g(1) by (simp add: best gs_Schedule_def worker_addr_def status_def Let_def)
  then have "cluster_step nc drv call c (c\<lparr>c_net := add_mset (MRun (worker_addr nc n) ?run)
      (add_mset (MGenerating \<lparr>gen_Uid = gs_Uid g, gen_NodeId = n\<rparr>) N)\<rparr>)"
    by (intro step_to[OF cluster_step.places[OF net up keys, where locations = "Inl (PlainError [])" and us = "[]"
            and clock = clock and seen = undefined and dialErr = None and result = "Inr (status True)"]])
      (auto simp: answered_def ended_def add_mset_commute)
  with h' show ?thesis by blast
qed

section \<open>Recovering\<close>

text \<open>A node that can take a task.\<close>

definition ready :: "wiring \<Rightarrow> 'db cluster \<Rightarrow> u64 \<Rightarrow> bool" where
  "ready nc c n \<longleftrightarrow> n \<in> nc_nodes nc \<and> PObjStore n \<notin> c_down c \<and> fatal (c_worker c n) = None \<and>
     semaphore (c_worker c n) < MAX_CONCURRENT_TASKS \<and> w_alive (c_worker c n)"

text \<open>C4 Recovery in the running cluster: a \<open>Get\<close> waits for the object of a task, and the node the
  task was given to has not been heard of for 400 ms. Then the next report of live nodes can make the
  cluster run the task again on a node that is alive, whichever its scheduler picks, the waiting client's own
  node included, so that the \<open>Get\<close> returns the function's result. It is enough that the lineage
  was recorded, that the object table still knows of the object in memory (a node generates it, or it was
  looked up and not flushed since), that the global scheduler is up and heard of one node lately with
  numbers a worker can report, that every node heard of lately has a free slot, and its worker and store up,
  that the client's own store is up with a free call to receive the callback, and that the function, which is
  registered, prints nothing and returns a value that fits a message.\<close>

theorem cluster_recovers:
  assumes "sqlite drv rows saved" "cluster_reachable nc drv call rows c"
    and "m \<in> nc_nodes nc" "PObjStore m \<notin> c_down c" "gets (c_los c m) i = GWaits req ch" "lfs (c_los c m) j = LIdle"
    and "localObjectChannels (srv (c_los c m)) (get_Uid req) = Some ch"
      "client_addr nc m \<in> set (lookup_list (waitlist (c_gcs c)) (get_Uid req))"
    and "get_Copy req"
    and "lineage (c_gcs c) (get_Uid req) = Some (global_request (get_Uid req) t)" "get_Uid req \<in> known_uids (c_gcs c)"
    and "\<forall>d h. generating (c_gcs c) (get_Uid req) = Some d \<and> gs_status (c_gs c) d = Some h \<longrightarrow>
           400000000 \<le> clock d - timeReceived h"
    and "distinct us" "set us = known_uids (c_gcs c)"
    and "PGlobalSched \<notin> c_down c" "map_order keys (gs_status (c_gs c))"
    and "\<forall>k h. gs_status (c_gs c) k = Some h \<and> clock k - timeReceived h < 400000000 \<longrightarrow> ready nc c k"
    and "gs_status (c_gs c) k = Some h" "clock k - timeReceived h < 400000000" "sane h"
    and "functionStore (c_ft c) (sr_Name t) = Some f" "call f (sr_Args t) (sr_Kwargs t) = ([], Inr result)"
    and "result \<noteq> []" "length result \<le> max_recv GetServerOptions"
  shows "\<exists>c'. cluster_steps nc drv call c c' \<and>
    (m, req, (Some (fetched req result), None)) \<in> set (c_answers c')"
proof -
  let ?R = "cluster_steps nc drv call" and ?u = "get_Uid req" and ?g = "global_request (get_Uid req) t"
  let ?l = "\<lparr>ln_LiveNodes = (\<lambda>k. map_option (live (clock k)) (gs_status (c_gs c) k))\<rparr>"
  note los = los_okD[OF cluster_invD(5)[OF cluster_reachable_inv[OF assms(1,2)]]]
  let ?c1 = "c\<lparr>c_net := add_mset (MLive ?l) (c_net c)\<rparr>"
  have 1: "cluster_step nc drv call c ?c1" by (rule can_report[OF assms(15,16)])
  have dead: "\<forall>d \<in> set (getNodes ?u (c_gcs c)). \<not> lookup_bool (ln_LiveNodes ?l) d"
    using assms(12) waiting_nodes[OF assms(1,2,8)]
    by (fastforce simp: lookup_bool_def live_def LIVE_NODE_TIMEOUT_def split: option.splits)
  then obtain G where 2: "?R ?c1 (?c1\<lparr>c_gcs := (c_gcs c)\<lparr>liveNodes := ln_LiveNodes ?l\<rparr>, c_gos := G,
      c_net := add_mset (MSchedule ?g) (c_net c)\<rparr>)"
    using can_reschedule[of ?c1 ?l "c_net c" us ?u ?g nc drv call] assms(10,11,13,14) by auto
  let ?c2 = "?c1\<lparr>c_gcs := (c_gcs c)\<lparr>liveNodes := ln_LiveNodes ?l\<rparr>, c_gos := G, c_net := add_mset (MSchedule ?g) (c_net c)\<rparr>"
  obtain n h' N where n: "gs_status (c_gs c) n = Some h'" "live (clock n) h'"
    and 3: "cluster_step nc drv call ?c2 (?c2\<lparr>c_net := add_mset (MRun (worker_addr nc n) (run_of ?u t)) N\<rparr>)"
    using can_place[of ?c2 ?g "c_net c" keys k h clock nc drv call] assms(15,16,18-20)
    by (auto simp: global_request_def run_of_def live_def LIVE_NODE_TIMEOUT_def)
  let ?c3 = "?c2\<lparr>c_net := add_mset (MRun (worker_addr nc n) (run_of ?u t)) N\<rparr>"
  have r: "ready nc c n" using assms(17) n by (auto simp: live_def LIVE_NODE_TIMEOUT_def)
  obtain c4 where c4: "?R ?c3 c4" "c_down c4 = c_down c" "c_copied c4 = c_copied c"
    "gets (c_los c4 m) i = GResumed req \<lparr>lf_Uid = ?u, lf_Location = n, lf_Address = [], lf_Port = 0\<rparr>"
    "holds (srv (c_los c4 n)) ?u result"
    using can_serve[of n nc ?c3 m j i req ch "run_of ?u t" N f call result drv] r assms(3-8,21-24) los(2)[of n]
    by (auto simp: ready_def run_of_def MAX_CONCURRENT_TASKS_def)
  have "c_copied c m i = None" using los(7)[of m i] assms(5) by auto
  then obtain c5 where c5: "?R c4 c5" "(m, req, (Some (fetched req result), None)) \<in> set (c_answers c5)"
    using can_copy[OF assms(3), of c4 n _ req i result drv call] c4 r assms(4,9) by (auto simp: ready_def)
  have "?R c c5" by (rule converse_rtranclp_into_rtranclp[OF 1 rtranclp_trans[OF 2
          converse_rtranclp_into_rtranclp[OF 3 rtranclp_trans[OF c4(1) c5(1)]]]])
  with c5(2) show ?thesis by blast
qed

section \<open>A task that is lost\<close>

text \<open>
  In the small cluster: a task is submitted to node 3, whose worker never gets to it, a client on
  node 2 waits for it, and only node 2 sends heartbeats.
\<close>

lemma can_record:
  assumes "c_net c = add_mset (MLineage g) (add_mset (MGenerating r) N)" "lineage (c_gcs c) (gs_Uid g) = None"
  shows "cluster_steps nc drv call c (c\<lparr>c_gcs := (c_gcs c)\<lparr>lineage := (lineage (c_gcs c))(gs_Uid g \<mapsto> g),
    generating := (generating (c_gcs c))(gen_Uid r \<mapsto> gen_NodeId r)\<rparr>, c_net := N\<rparr>)"
proof -
  let ?g1 = "(c_gcs c)\<lparr>lineage := (lineage (c_gcs c))(gs_Uid g \<mapsto> g)\<rparr>"
  let ?c1 = "c\<lparr>c_gcs := ?g1, c_net := add_mset (MGenerating r) N\<rparr>"
  have "cluster_step nc drv call c ?c1"
    by (rule step_to[OF cluster_step.gcs_handles[OF assms(1), of nc "OpLineage g" drv "[]" ?g1]])
      (use assms(2) in \<open>auto simp: RegisterLineage_def lineage_check_def lineage_store_def intro: cluster.equality\<close>)
  moreover have "cluster_step nc drv call ?c1 (c\<lparr>c_gcs := ?g1\<lparr>generating := (generating ?g1)(gen_Uid r \<mapsto> gen_NodeId r)\<rparr>, c_net := N\<rparr>)"
    by (rule step_to[OF cluster_step.gcs_handles[of ?c1 "MGenerating r" N nc "OpGenerating r" drv "[]"]])
      (auto simp: RegisterGenerating_def intro: cluster.equality)
  ultimately show ?thesis by simp
qed

lemma small_lost:
  "\<exists>c h ch. small_reachable c \<and> c_down c = {} \<and> gets (c_los c 2) 0 = GWaits get5 ch \<and> lfs (c_los c 2) 0 = LIdle \<and>
    localObjectChannels (srv (c_los c 2)) 5 = Some ch \<and>
    client_addr small_cluster 2 \<in> set (lookup_list (waitlist (c_gcs c)) 5) \<and>
    lineage (c_gcs c) 5 = Some (global_request 5 task5) \<and> known_uids (c_gcs c) = {5} \<and> generating (c_gcs c) 5 = Some 3 \<and>
    gs_status (c_gs c) = [2 \<mapsto> h] \<and> timeReceived h = 0 \<and> sane h \<and> c_worker c 2 = new_worker \<and> c_ft c = \<lparr>functionStore = [7 \<mapsto> [9]]\<rparr>"
proof -
  have five: "TruncateHighBit 5 = 5" by (rule TruncateHighBit_id) simp
  have new: "c_down small_started = {}" "c_worker small_started = (\<lambda>_. new_worker)" "c_tasks small_started = Map.empty"
    "c_ls small_started = (\<lambda>n. \<lparr>ls_localNodeID = n, ls_alive = True\<rparr>)" "c_gs small_started = \<lparr>gs_status = Map.empty\<rparr>"
    "c_los small_started = (\<lambda>n. los_start (new_los n idle_machine))" "c_net small_started = {#}"
    "c_gcs small_started = server_with Map.empty []" "c_ft small_started = \<lparr>functionStore = [7 \<mapsto> [9]]\<rparr>"
    by (simp_all add: small_started_def new_cluster_def)
  have nodes: "2 \<in> nc_nodes small_cluster" "3 \<in> nc_nodes small_cluster" by (simp_all add: small_cluster_def)
  let ?N = "add_mset (MLineage (global_request 5 task5)) {#MGenerating \<lparr>gen_Uid = 5, gen_NodeId = 3\<rparr>#}"
  let ?c1 = "small_started\<lparr>c_tasks := [5 \<mapsto> task5], c_net := add_mset (MRun (worker_addr small_cluster 3) (run_of 5 task5)) ?N\<rparr>"
  have 1: "cluster_step small_cluster table_driver appending small_started ?c1"
    using can_submit[OF nodes(2), of small_started task5 5 5] by (simp add: new new_worker_def five)
  obtain L g ch where 2: "small_steps ?c1 (?c1\<lparr>c_gcs := g, c_los := (c_los ?c1)(2 := L)\<rparr>)"
    and L: "gets L 0 = GWaits get5 ch" "localObjectChannels (srv L) 5 = Some ch" "lfs L = lfs (c_los ?c1 2)"
      "avgBandwidth (srv L) = avgBandwidth (srv (c_los ?c1 2))"
    and g: "client_addr small_cluster 2 \<in> set (lookup_list (waitlist g) 5)" "lineage g = Map.empty" "generating g = Map.empty"
      "objectLocations g = [5 \<mapsto> []]"
    using tbl.can_wait[OF nodes(1), of ?c1 0 get5 appending]
    by (auto simp: new los_start_def new_los_def locs_def server_with_def)
  let ?c2 = "?c1\<lparr>c_gcs := g, c_los := (c_los ?c1)(2 := L)\<rparr>"
  let ?g = "g\<lparr>lineage := [5 \<mapsto> global_request 5 task5], generating := [5 \<mapsto> 3]\<rparr>"
  let ?c3 = "?c2\<lparr>c_net := ?N\<rparr>" and ?c4 = "?c2\<lparr>c_gcs := ?g, c_net := {#}\<rparr>"
  have 3: "small_steps ?c2 ?c3"
    by (rule r_into_rtranclp, rule step_to[OF cluster_step.loses[of ?c2 "MRun (worker_addr small_cluster 3) (run_of 5 task5)" ?N]])
      (auto intro: cluster.equality)
  have 4: "small_steps ?c3 ?c4"
    using can_record[of ?c3 "global_request 5 task5" "\<lparr>gen_Uid = 5, gen_NodeId = 3\<rparr>" "{#}"] g(2,3)
    by (simp add: global_request_def)
  obtain h where "(clocked_cluster_step small_cluster table_driver appending)\<^sup>*\<^sup>* ?c4 (?c4\<lparr>c_gs := \<lparr>gs_status = [2 \<mapsto> h]\<rparr>\<rparr>)" and h: "timeReceived h = 0"
    "he_avgRunningTime h = f32_const (1 / 10)" "he_avgBandwidth h = DEFAULT_AVG_BANDWIDTH"
    using can_hear[OF nodes(1), of ?c4 table_driver appending 0] L by (auto simp: new new_worker_def los_start_def new_los_def)
  then have 5: "small_steps ?c4 (?c4\<lparr>c_gs := \<lparr>gs_status = [2 \<mapsto> h]\<rparr>\<rparr>)" by (intro clocked_steps)
  have "sane h" using h three_nodes_sane by (simp add: sane_def DEFAULT_AVG_BANDWIDTH_def fl_upto_def ema_consts)
  moreover have "small_steps small_started (?c4\<lparr>c_gs := \<lparr>gs_status = [2 \<mapsto> h]\<rparr>\<rparr>)"
    by (rule converse_rtranclp_into_rtranclp[OF 1 rtranclp_trans[OF 2 rtranclp_trans[OF 3 rtranclp_trans[OF 4 5]]]])
  ultimately show ?thesis
    using L g h cluster_reachable_steps[OF small_started_reachable]
    by (intro exI[of _ "?c4\<lparr>c_gs := \<lparr>gs_status = [2 \<mapsto> h]\<rparr>\<rparr>"] exI[of _ h] exI[of _ ch])
      (auto simp: new known_uids_def getNodes_def los_start_def)
qed

theorem cluster_recovers_witness:
  "\<exists>c c'. small_reachable c \<and> generating (c_gcs c) 5 = Some 3 \<and> gs_status (c_gs c) 3 = None \<and> small_steps c c' \<and>
     (2, get5, (Some \<lparr>gresp_Uid = 5, gresp_ObjectBytes = [9, 4], gresp_Local = False, gresp_Size = 0\<rparr>, None)) \<in> set (c_answers c')"
proof -
  obtain c h ch where c: "small_reachable c" "c_down c = {}" "gets (c_los c 2) 0 = GWaits get5 ch" "lfs (c_los c 2) 0 = LIdle"
    "localObjectChannels (srv (c_los c 2)) 5 = Some ch"
    "client_addr small_cluster 2 \<in> set (lookup_list (waitlist (c_gcs c)) 5)"
    "lineage (c_gcs c) 5 = Some (global_request 5 task5)" "known_uids (c_gcs c) = {5}" "generating (c_gcs c) 5 = Some 3"
    "gs_status (c_gs c) = [2 \<mapsto> h]" "timeReceived h = 0" "sane h" "c_worker c 2 = new_worker" "c_ft c = \<lparr>functionStore = [7 \<mapsto> [9]]\<rparr>"
    using small_lost by blast
  have "\<exists>c'. small_steps c c' \<and> (2, get5, (Some (fetched get5 [9, 4]), None)) \<in> set (c_answers c')"
    by (rule cluster_recovers[OF tbl.sqlite_axioms c(1), where t = task5 and us = "[5]" and keys = "[2]" and clock = "\<lambda>_. 0"
          and k = 2 and h = h and f = "[9]" and j = 0 and i = 0 and ch = ch])
      (use c in \<open>auto simp: map_order_def small_cluster_def ready_def new_worker_def MAX_CONCURRENT_TASKS_def appending_def
         GetServerOptions_def split: if_splits\<close>)
  then show ?thesis using c(1,9,10) by (fastforce simp: fetched_def)
qed

end
