(* ===== verification/Spec2Isabelle.thy ===== *)
theory Spec2Isabelle
  imports GCS_FuncTable GCS_ObjTable_Props Local_ObjStore_Props Worker_Node_Props Local_Scheduler
    Global_Scheduler_Props Cluster_Config Cluster_Props Cluster_Load Cluster_Recovery BR_Log
begin

text \<open>
  \<^bold>\<open>Baby Ray\<close> is a small distributed task runtime. A client hands a Python function to the GCS
  function table and submits tasks to the local scheduler of its node; tasks run on workers, their
  results live in the shared memory of local object stores, and the GCS object table knows where.

  \<^bold>\<open>Parts and how they interact.\<close>
  \<^item> The \<^emph>\<open>function table\<close> (\<open>src/go/cmd/gcsfunctable\<close>) stores serialised functions under random names.
  \<^item> The \<^emph>\<open>object table\<close> (\<open>src/go/cmd/gcsobjtable\<close>) records which nodes hold an object, which clients
    wait for it, which node generates it and from which request it can be regenerated; locations are
    flushed to SQLite from time to time.
  \<^item> A \<^emph>\<open>local object store\<close> (\<open>src/go/cmd/localobjstore\<close>) per node holds objects in \<open>/dev/shm\<close>, announces
    them to the object table, and fetches others: \<open>Get\<close> asks the object table and blocks on a channel
    until the table calls \<open>LocationFound\<close>, then copies from the other store.
  \<^item> A \<^emph>\<open>worker\<close> (\<open>src/go/cmd/worker\<close>) per node fetches functions, runs them in a Python process, at most
    ten at a time, and stores the results.
  \<^item> A \<^emph>\<open>local scheduler\<close> (\<open>src/go/cmd/localscheduler\<close>) per node names tasks, registers their lineage, and
    runs them here or asks the global scheduler; it sends heartbeats.
  \<^item> The \<^emph>\<open>global scheduler\<close> (\<open>src/go/cmd/globalscheduler\<close>) keeps the heartbeats, tells the object table
    which nodes are alive, and places tasks.

  \<^bold>\<open>How the sources are modelled.\<close> A struct is a record, a handler is a function from its request and the
  server's state to its response (a pointer and an error, each possibly nil), the calls it makes or the
  goroutines it starts, and the new state. What a handler draws from outside is an argument: random
  numbers, the order of a \<open>range\<close> over a map, clock readings, answers and errors of calls, errors of system
  calls. \<open>log.Fatalf\<close>, a nil dereference and \<open>runtime.Goexit\<close> are outcomes. 64- and 32-bit integers are
  words, \<open>float32\<close> and \<open>float64\<close> are exact rationals rounded to nearest even as IEEE prescribes. Where calls
  overlap, the code is a step relation with one step per critical section or channel operation.

  \<^bold>\<open>Theories.\<close>
  \<^item> \<open>BR_Prelude\<close>: types, errors, maps, decimal numbers; the interfaces \<open>keyed_store\<close>, \<open>step_invariant\<close>,
    \<open>refinement\<close> with its special case \<open>simulation\<close>, \<open>draining\<close> and \<open>line_codec\<close>.
  \<^item> \<open>BR_Float\<close>, \<open>BR_Net\<close>, \<open>BR_Base64\<close>, \<open>BR_Log\<close>: what the code uses of Go's and Python's standard libraries
    (floating point, \<open>SplitHostPort\<close> and \<open>JoinHostPort\<close>, base64, logging with \<open>customlog\<close>).
  \<^item> \<open>BR_Messages\<close>: the messages of \<open>src/go/pkg/rayclient.pb.go\<close>.
  \<^item> \<open>GCS_FuncTable\<close>: the function table, with its interpretation as a keyed store.
  \<^item> \<open>GCS_Db\<close>: \<open>db.go\<close> over an abstract SQL driver; the locales \<open>sqlite\<close>, \<open>sqlite_available\<close> and
    \<open>location_store\<close> say what the code relies on and what the object table gets, and a table of rows
    provides them.
  \<^item> \<open>GCS_ObjTable\<close>: \<open>main.go\<close> of the object table; \<open>GCS_ObjTable_Inv\<close>: its operations as steps, the
    invariant, waiting clients; \<open>GCS_ObjTable_Props\<close>: its properties.
  \<^item> \<open>Local_ObjStore\<close>, \<open>Local_ObjStore_Props\<close>: shared memory at the level of system calls, the handlers, and
    \<open>Get\<close> and \<open>LocationFound\<close> interleaved.
  \<^item> \<open>Worker_Node\<close>, \<open>Worker_Node_Props\<close>: \<open>Run\<close> as a step machine, the pipe to \<open>execute.py\<close>, the moving
    average.
  \<^item> \<open>Local_Scheduler\<close>: scheduling and heartbeats. \<open>Global_Scheduler\<close>, \<open>Global_Scheduler_Props\<close>: the heartbeat
    table and placement.
  \<^item> \<open>Cluster_Config\<close>: configuration, options, the \<open>main\<close> functions and the wiring of the services.
  \<^item> \<open>Cluster_System\<close>: all services together, on any set of nodes, with the calls between them as messages
    in flight; each of its steps runs one handler, critical section or channel operation by the
    definitions of the component's theory. \<open>Cluster_Inv\<close>: the invariant that ties their states together and
    that every step keeps it. \<open>Cluster_Run\<close>: the path of a task from submission to the answered \<open>Get\<close>.
    \<open>Cluster_Parts\<close>: each component moves inside the cluster as it does alone. \<open>Cluster_Spec\<close>: what clients may
    rely on, as an abstract system of futures, and that the cluster refines it. \<open>Cluster_Props\<close>: what the
    whole system promises. \<open>Cluster_Load\<close>: what the global scheduler knows of the nodes, and that it places
    tasks. \<open>Cluster_Recovery\<close>: lost tasks are run again and delivered.
  \<^item> This theory: the properties of several components that need no cluster.

  \<^bold>\<open>What is shown.\<close> Of the whole cluster, in every reachable state: a successful \<open>Get\<close> delivers the result of
  the task's function on the task's arguments; the object table and every callback name only nodes that hold
  the object; requests in flight, in lineage and on workers, up to the point where the result is stored,
  are the submitted ones, with the registered function and its output; the global scheduler's table has only
  numbers workers and stores report, so that it places every task while a node is alive; a task submitted to
  a free node can be run and its result delivered to a client that waits for it on any node, and kept there if
  asked to; a task whose node fell silent can be run again on a live node, the waiting client's own
  included, and delivered all the same. To its clients the cluster
  is the abstract system of \<open>Cluster_Spec\<close>, in which tasks have one value and every answer delivers it.
  Across components: an object stored anywhere reaches a waiting client unchanged; a
  registered function is run on the task's arguments and its result stored; what workers report always
  lets the scheduler find a node; a lost object is generated again from its lineage. Object table: waiting
  clients are called back, the invariant of its state, flushing as a refinement, every branch of
  look-up, notification and rescheduling, the append-only file. Object store: what was stored is
  copied, sizes agree with files, wake-ups go to the right \<open>Get\<close>. Worker: exact counters under any
  interleaving, no task blocks the others for ever, the pipe is faithful, the average stays a number.
  Schedulers: a task is placed once, on a live node of least expected waiting time; the retry loop ends
  at the first success. Where the code does not do what it means to, the theorem says what it does
  instead: look-ups that name no live node, locations lost after a flush, flushes that fail for ever, a
  \<open>Get\<close> that is never woken, a \<open>Get\<close> for an unknown object that ends the global scheduler, sizes lost by early
  look-ups, objects destroyed by an empty \<open>Store\<close>, the lineage race, replicas counted as
  transfers, tasks whose exceptions end the worker.

  \<^bold>\<open>Bounds and fuel.\<close> \<open>Run_follow\<close> follows one call of \<open>Run\<close> for eight steps, the length of the longest path
  from queueing to the end; \<open>Run_result\<close> shows that the call is over by then. Endless loops (heartbeats,
  liveness reports) are followed for as many rounds as there are inputs, and the retry loop for as many
  answers. Objects are shorter than \<open>2 ^ 63\<close> bytes, the range of a Go \<open>int\<close>, and in the cluster at most as
  long as the message limit of one GB that \<open>GetServerOptions\<close> sets.

  \<^bold>\<open>What the cluster theorems rest on.\<close> The database behaves as the locale \<open>sqlite\<close> says and starts empty.
  Random draws of names and uids do not repeat; uid 0 is the uid of the empty request that is sent for a lost object
  without lineage, and the theorems leave it out. A call is delivered once, in any order relative to others, or
  fails; a caller may see a failure although the call was handled. Objects get into a store from the worker
  of its node: the other caller of \<open>Store\<close> in the sources, \<open>src/pythonserver/worker.py\<close>, is another worker, which
  makes the same call with the request's uid and is not part of the model. Python runs each function as a
  function of its three inputs that does not call \<open>sys.exit\<close>; an interpreter that fails before the \<open>try\<close> of
  \<open>execute.py\<close>, in its imports or \<open>init\<close>, is a process that fails.

  \<^bold>\<open>Not modelled.\<close> The generated gRPC stubs and protobuf reflection, time-outs of calls, credentials and
  keep-alive options, garbage collection, the Python client, tests and
  experiment scripts, the empty files under \<open>src/go/internal\<close>, and the two handlers of the chain conductor,
  which have no body and do not compile. Processes that ended are not started again; a store, GCS or scheduler
  that hangs or crashes is one that takes no further step. Some handlers are one step although the code
  holds no lock over all of it: \<open>RegisterLiveNodes\<close> reads the maps while other handlers may run, \<open>Store\<close> creates,
  fills and records an object in three operations, and \<open>RegisterLineage\<close> has two critical sections (its
  interleavings are \<open>lin_step\<close>, outside the cluster). With locality the heartbeat table may change while nodes
  are compared; data races inside one map operation, on maps the code accesses without their lock, are outside
  the model.
\<close>

section \<open>A waiting client gets its object\<close>

lemma NotifyOwns_calls_back:
  assumes "addr \<in> set (lookup_list (waitlist g) (no_Uid req))"
  shows "fst (NotifyOwns req g) = (Some (status True), None)"
    and "\<exists>go \<in> set (fst (snd (NotifyOwns req g))). run_go None go (snd (snd (NotifyOwns req g))) =
           [CallLocationFound addr \<lparr>lf_Uid = no_Uid req, lf_Location = no_NodeId req, lf_Address = [], lf_Port = 0\<rparr>]"
    and "lookup_list (waitlist (snd (snd (NotifyOwns req g)))) (no_Uid req) = []"
proof -
  from assms obtain ips where "waitlist g (no_Uid req) = Some ips" "addr \<in> set ips"
    by (cases "waitlist g (no_Uid req)") simp_all
  then show "fst (NotifyOwns req g) = (Some (status True), None)"
    "\<exists>go \<in> set (fst (snd (NotifyOwns req g))). run_go None go (snd (snd (NotifyOwns req g))) =
           [CallLocationFound addr \<lparr>lf_Uid = no_Uid req, lf_Location = no_NodeId req, lf_Address = [], lf_Port = 0\<rparr>]"
    "lookup_list (waitlist (snd (snd (NotifyOwns req g)))) (no_Uid req) = []"
    by (auto simp: NotifyOwns_def Let_def sendCallback_def split: option.split)
qed

text \<open>From store to waiting client: when a node stores an object for which a client waits at the
  GCS, the store's notification makes the GCS call that client back with the node's id and forget
  the wait; the client's blocked \<open>Get\<close>, resumed with that callback, copies from the address of that
  node, and the copy it receives there is the stored object, byte for byte.\<close>

theorem waiting_Get_is_served:
  assumes "addr \<in> set (lookup_list (waitlist g) uid)" "is_object bs"
    and "get_Uid greq = uid" "get_Copy greq" "\<not> get_Cache greq"
    and "Store no_errors \<lparr>st_Uid = uid, st_ObjectBytes = bs\<rparr> owner = (r, calls, owner')"
  shows "\<exists>req gos g' cb copied owner''. calls = [CallNotifyOwns req] \<and>
    NotifyOwns req g = ((Some (status True), None), gos, g') \<and> lookup_list (waitlist g') uid = [] \<and>
    (\<exists>go \<in> set gos. run_go None go g' = [CallLocationFound addr cb]) \<and>
    Copy no_errors \<lparr>cp_Uid = lf_Uid cb, cp_Requester = localNodeID client\<rparr> owner' = (Return copied, owner'') \<and>
    Get_resume errs prefix port None copied greq cb client =
      ((Some \<lparr>gresp_Uid = uid, gresp_ObjectBytes = bs, gresp_Local = False, gresp_Size = 0\<rparr>, None),
       [CallCopy (node_address prefix (uint (localNodeID owner)) port)
          \<lparr>cp_Uid = uid, cp_Requester = localNodeID client\<rparr>], client)"
proof -
  let ?req = "\<lparr>no_Uid = uid, no_NodeId = localNodeID owner, no_ObjectSize = of_nat (length bs)\<rparr>"
  let ?cb = "\<lparr>lf_Uid = uid, lf_Location = localNodeID owner, lf_Address = [], lf_Port = 0\<rparr>"
  have st: "create_error no_errors bs = None" using assms(2) by (simp add: is_object_def)
  then have calls: "calls = [CallNotifyOwns ?req]"
    using assms(6) put_shared_ok[of no_errors bs uid owner] unfolding create_error_None by (simp add: Store_def)
  have "object_in owner' uid = Some bs"
    using assms(2,6) put_shared_object_in[OF _ _ st, of uid owner]
      Store_state[of no_errors "\<lparr>st_Uid = uid, st_ObjectBytes = bs\<rparr>" owner]
    by (simp add: is_object_def)
  then obtain owner'' where copy: "Copy no_errors \<lparr>cp_Uid = uid, cp_Requester = localNodeID client\<rparr> owner' =
      (Return (Some \<lparr>cpresp_Uid = uid, cpresp_ObjectBytes = bs\<rparr>, None), owner'')"
    using Copy_object_in[of owner' uid bs "localNodeID client"] by auto
  obtain gos g' where n: "NotifyOwns ?req g = ((Some (status True), None), gos, g')"
    using NotifyOwns_calls_back(1)[of addr g ?req] assms(1) by (cases "NotifyOwns ?req g") auto
  have resume: "Get_resume errs prefix port None (Some \<lparr>cpresp_Uid = uid, cpresp_ObjectBytes = bs\<rparr>, None) greq ?cb client =
      ((Some \<lparr>gresp_Uid = uid, gresp_ObjectBytes = bs, gresp_Local = False, gresp_Size = 0\<rparr>, None),
       [CallCopy (node_address prefix (uint (localNodeID owner)) port)
          \<lparr>cp_Uid = uid, cp_Requester = localNodeID client\<rparr>], client)"
    using assms(3-5) by (simp add: Get_resume_def Let_def otherLocalAddress_def)
  show ?thesis
    using calls n copy resume NotifyOwns_calls_back(2,3)[of addr g ?req] assms(1)
    by (intro exI[of _ ?req] exI[of _ gos] exI[of _ g'] exI[of _ ?cb]
        exI[of _ "(Some \<lparr>cpresp_Uid = uid, cpresp_ObjectBytes = bs\<rparr>, None)"] exI[of _ owner'']) simp
qed

definition waiting_table :: "table GCSObjServer" where
  "waiting_table = (server_with Map.empty [])\<lparr>waitlist := [7 \<mapsto> [''10.0.0.7:50000'']]\<rparr>"

theorem waiting_Get_is_served_witness:
  "\<exists>req gos g' cb copied owner''.
     fst (snd (Store no_errors \<lparr>st_Uid = 7, st_ObjectBytes = [1, 2]\<rparr> (new_los 3 idle_machine))) = [CallNotifyOwns req] \<and>
     NotifyOwns req waiting_table = ((Some (status True), None), gos, g') \<and>
     (\<exists>go \<in> set gos. run_go None go g' = [CallLocationFound ''10.0.0.7:50000'' cb]) \<and>
     Copy no_errors \<lparr>cp_Uid = lf_Uid cb, cp_Requester = 2\<rparr>
       (snd (snd (Store no_errors \<lparr>st_Uid = 7, st_ObjectBytes = [1, 2]\<rparr> (new_los 3 idle_machine)))) =
       (Return copied, owner'') \<and>
     fst (Get_resume no_errors ''node'' 50000 None copied req7 cb (new_los 2 idle_machine)) =
       (Some \<lparr>gresp_Uid = 7, gresp_ObjectBytes = [1, 2], gresp_Local = False, gresp_Size = 0\<rparr>, None)"
proof -
  obtain r calls owner' where s: "Store no_errors \<lparr>st_Uid = 7, st_ObjectBytes = [1, 2]\<rparr> (new_los 3 idle_machine) =
      (r, calls, owner')" by (metis prod_cases3)
  have w: "''10.0.0.7:50000'' \<in> set (lookup_list (waitlist waiting_table) 7)"
    by (simp add: waiting_table_def)
  have n: "localNodeID (new_los 2 idle_machine) = 2" by (simp add: new_los_def)
  from waiting_Get_is_served[OF w _ _ _ _ s, of req7 "new_los 2 idle_machine" no_errors "''node''" 50000] s n
  show ?thesis by (fastforce simp: is_object_def)
qed

section \<open>A registered function runs\<close>

text \<open>From registration to stored result: a worker with a free slot that runs a task under the
  name \<open>RegisterFunc\<close> returned fetches the very function that was registered, applies it in Python to
  the task's arguments, stores its pickled result under the task's uid and reports success; the
  object store then holds exactly that result.\<close>

theorem registered_function_runs:
  assumes "RegisterFunc src \<lparr>reg_SerializedFunc = f\<rparr> ft = ((Some resp, err), ft')"
    and "call f args kwargs = ([], Inr result)" "is_object result"
    and "fatal w = None" "semaphore w < 10" "w_alive w"
    and "e_fetch e = client_sees (fst (FetchFunc \<lparr>fe_Name = regresp_Name resp, fe_CallbackNodeId = 0\<rparr> ft'))"
    and "e_python e = execute_py call"
    and "Store no_errors \<lparr>st_Uid = uid, st_ObjectBytes = result\<rparr> los = (sr, calls, los')" "e_store e = client_sees sr"
    and "Run e \<lparr>run_Uid = uid, run_Name = regresp_Name resp, run_Args = args, run_Kwargs = kwargs\<rparr> w = (p, w')"
  shows "p = RDone (Return (Some (status True), None)) \<and>
    w_calls w' = w_calls w @ [CallFetchFunc \<lparr>fe_Name = regresp_Name resp, fe_CallbackNodeId = 0\<rparr>,
                              CallStore \<lparr>st_Uid = uid, st_ObjectBytes = result\<rparr>] \<and>
    object_in los' uid = Some result"
proof -
  have "functionStore ft' (regresp_Name resp) = Some f"
    using assms(1) by (auto simp: RegisterFunc_def split: sum.splits)
  then have fetch: "e_fetch e = Inr \<lparr>feresp_SerializedFunc = f\<rparr>"
    using assms(7) by (simp add: FetchFunc_def client_sees_def)
  have exec: "executeFunction (e_python e) f args kwargs = Return (Some result, None)"
    using assms(2,8) by (simp add: executeFunction_def execute_py_payload)
  have ok: "create_error no_errors result = None" using assms(3) by (simp add: is_object_def)
  then have "sr = (Some (status True), None)"
    using assms(9) put_shared_ok[of no_errors result uid los] unfolding create_error_None by (simp add: Store_def)
  then have store: "e_store e = Inr (status True)" using assms(10) by (simp add: client_sees_def)
  have "object_in los' uid = Some result"
    using assms(3,9) put_shared_object_in[OF _ _ ok, of uid los]
      Store_state[of no_errors "\<lparr>st_Uid = uid, st_ObjectBytes = result\<rparr>" los]
    by (simp add: is_object_def)
  then show ?thesis
    using assms(4-6,11) fetch exec store
    by (auto simp: Run_def Run_follow_numeral Run_enter_def MAX_CONCURRENT_TASKS_def Let_def)
qed

theorem registered_function_runs_witness:
  "\<exists>w'. Run \<lparr>e_fetch = client_sees (fst (FetchFunc \<lparr>fe_Name = 5, fe_CallbackNodeId = 0\<rparr>
                 (snd (RegisterFunc (Inr (be_bytes 8 5)) \<lparr>reg_SerializedFunc = [9]\<rparr> NewGCSFuncServer)))),
               e_python = execute_py (\<lambda>f a k. ([], Inr (f @ a))),
               e_store = client_sees (fst (Store no_errors \<lparr>st_Uid = 7, st_ObjectBytes = [9, 1]\<rparr>
                 (new_los 3 idle_machine))), e_elapsed = 0\<rparr>
         \<lparr>run_Uid = 7, run_Name = 5, run_Args = [1], run_Kwargs = []\<rparr> new_worker =
       (RDone (Return (Some (status True), None)), w')"
proof -
  let ?e = "\<lparr>e_fetch = client_sees (fst (FetchFunc \<lparr>fe_Name = 5, fe_CallbackNodeId = 0\<rparr>
                 (snd (RegisterFunc (Inr (be_bytes 8 5)) \<lparr>reg_SerializedFunc = [9]\<rparr> NewGCSFuncServer)))),
               e_python = execute_py (\<lambda>f a k. ([], Inr (f @ a))),
               e_store = client_sees (fst (Store no_errors \<lparr>st_Uid = 7, st_ObjectBytes = [9, 1]\<rparr>
                 (new_los 3 idle_machine))), e_elapsed = 0\<rparr>"
  let ?req = "\<lparr>run_Uid = 7, run_Name = 5, run_Args = [1], run_Kwargs = []\<rparr>"
  obtain ft' where reg: "RegisterFunc (Inr (be_bytes 8 5)) \<lparr>reg_SerializedFunc = [9]\<rparr> NewGCSFuncServer =
      ((Some \<lparr>regresp_Name = 5\<rparr>, None), ft')" by (simp add: RegisterFunc_def)
  obtain sr calls los' where st: "Store no_errors \<lparr>st_Uid = 7, st_ObjectBytes = [9, 1]\<rparr> (new_los 3 idle_machine) =
      (sr, calls, los')" by (metis prod_cases3)
  obtain p w' where run: "Run ?e ?req new_worker = (p, w')" by fastforce
  have "p = RDone (Return (Some (status True), None))"
    using registered_function_runs[OF reg, of "\<lambda>f a k. ([], Inr (f @ a))" "[1]" "[]" "[9, 1]" new_worker ?e 7
        "new_los 3 idle_machine" sr calls los' p w'] reg st run
    by (simp add: is_object_def new_worker_def)
  with run show ?thesis by blast
qed

section \<open>Reported numbers\<close>

text \<open>C17 From worker to placement: what any reachable worker and any reachable object store report,
  sent on in a heartbeat, lets the global scheduler find a node as long as that heartbeat is less
  than 400 ms old, with or without locality, as long as no later heartbeat of that node comes in between.\<close>

theorem reported_worker_is_found:
  assumes "clocked_step\<^sup>*\<^sup>* new_worker w"
    and "los_steps prefix port (los_start (new_los nodeId m)) los"
    and "heartbeat_round [client_sees (WorkerStatus w)] [client_sees (AvgBandwidth (srv los))] nodeId ls =
           Some (Some hb, ms)"
    and "map_order keys (gs_status (snd (Heartbeat t hb s)))" and "now nodeId - t < 400000000"
    and "gs_status (fst (seen nodeId)) nodeId = gs_status (snd (Heartbeat t hb s)) nodeId"
    and "gs_status (snd (seen nodeId)) nodeId = gs_status (snd (Heartbeat t hb s)) nodeId"
    and "flag \<and> uids \<noteq> [] \<longrightarrow> (\<exists>resp. answer = Inr resp)"
  shows "\<exists>j. fst (getBestWorker now keys answer us flag uids (snd (Heartbeat t hb s)) seen) = Return j"
proof -
  have bw: "avgBandwidth (srv los) = Fin (13421773 / 134217728)"
    using reachable_bandwidth[OF assms(2)] by (simp add: DEFAULT_AVG_BANDWIDTH_def ema_consts)
  have hb: "hb = \<lparr>hb_RunningTasks = numRunningTasks w, hb_QueuedTasks = numQueuedTasks w,
      hb_AvgRunningTime = averageRunningTime w, hb_AvgBandwidth = avgBandwidth (srv los), hb_NodeId = nodeId\<rparr>"
    using assms(3)
    by (auto simp: heartbeat_round_def client_sees_def WorkerStatus_def AvgBandwidth_def split: if_splits)
  let ?h = "the (gs_status (snd (Heartbeat t hb s)) nodeId)"
  have "gs_status (snd (Heartbeat t hb s)) nodeId = Some ?h" "live (now nodeId) ?h" "sane ?h"
    using assms(5) average_upto[OF assms(1)] bw
    by (simp_all add: Heartbeat_def Let_def hb live_def LIVE_NODE_TIMEOUT_def sane_def)
  then show ?thesis
    using assms(4,6-8)
    by (intro getBestWorker_Return[of keys "snd (Heartbeat t hb s)" nodeId flag uids seen ?h now ?h answer us]) auto
qed

theorem reported_worker_is_found_witness:
  "\<exists>hb ms. heartbeat_round [client_sees (WorkerStatus new_worker)] [client_sees (AvgBandwidth (new_los 4 idle_machine))] 4
       \<lparr>ls_localNodeID = 4, ls_alive = True\<rparr> = Some (Some hb, ms) \<and>
     (\<exists>j. fst (getBestWorker (\<lambda>_. 1000) [3, 4, 1, 2] (Inl (PlainError [])) [] False []
        (snd (Heartbeat 0 hb three_nodes)) (\<lambda>_. (snd (Heartbeat 0 hb three_nodes), snd (Heartbeat 0 hb three_nodes)))) = Return j)"
proof -
  let ?ls = "\<lparr>ls_localNodeID = 4, ls_alive = True\<rparr>"
  obtain hb ms where hb: "heartbeat_round [client_sees (WorkerStatus new_worker)]
      [client_sees (AvgBandwidth (srv (los_start (new_los 4 idle_machine))))] 4 ?ls = Some (Some hb, ms)"
    "hb_NodeId hb = 4"
    by (simp add: heartbeat_round_def client_sees_def WorkerStatus_def AvgBandwidth_def)
  have keys: "map_order [3, 4, 1, 2] (gs_status (snd (Heartbeat 0 hb three_nodes)))"
    using hb(2) by (auto simp: map_order_def three_nodes_def Heartbeat_def Let_def)
  from reported_worker_is_found[OF rtranclp.rtrancl_refl rtranclp.rtrancl_refl hb(1) keys,
      of "\<lambda>_. 1000" "\<lambda>_. (snd (Heartbeat 0 hb three_nodes), snd (Heartbeat 0 hb three_nodes))" False "[]"] hb(1)
  show ?thesis by (simp add: los_start_def)
qed

section \<open>Asking for what was never submitted\<close>

text \<open>C30 A client that asks for an object nobody ever submitted brings the global scheduler down: the
  look-up makes the object known to the object table, which takes it for lost at the next report of live
  nodes and, having no lineage for it, sends an empty request; the worker that is picked finds no
  function of that name, and the scheduler ends on the error.\<close>

theorem unknown_Get_ends_scheduler:
  assumes "sqlite_available drv rows saved" "locs rows g uid = {}" "uid < 2 ^ 63"
    and "lineage g uid = None" "generating g uid = None"
    and "snd (RequestLocation drv r port (Some peer) \<lparr>rl_Uid = uid, rl_Requester = n\<rparr> g) = (gos, g1)"
    and "set ks = known_uids g1" "snd (RegisterLiveNodes ks report g1) = (gos2, g2)"
    and "fst best = Return k" "functionStore ft 0 = None"
    and "fatal w = None" "semaphore w < 10"
    and "e_fetch e = client_sees (fst (FetchFunc \<lparr>fe_Name = 0, fe_CallbackNodeId = 0\<rparr> ft))"
  shows "\<exists>rr err w'. GoSchedule uid \<in> set gos2 \<and> run_go None (GoSchedule uid) g2 = [CallSchedule None] \<and>
    gcs_msg (CallSchedule None) = Some (MSchedule empty_request) \<and>
    GCallRun (node_address prefix (uint k) wport) rr \<in> set (snd (gs_Schedule prefix wport best None result empty_request)) \<and>
    Run e rr w = (RDone (Return (None, Some err)), w') \<and>
    fst (gs_Schedule prefix wport best None (Inl err) empty_request) = Fatal (contact_failure k (Some err))"
proof -
  obtain W where "g1 = g\<lparr>objectLocations := (objectLocations g)(uid \<mapsto> []), waitlist := W\<rparr>"
    using sqlite_available.RequestLocation_unknown[OF assms(1), of g "\<lparr>rl_Uid = uid, rl_Requester = n\<rparr>" r port peer] assms(2,3,6)
    by auto
  then have o: "objectLocations g1 uid = Some []" "generating g1 uid = None" "lineage g1 uid = None"
    using assms(4,5) by simp_all
  then have "uid \<in> set ks" "getNodes uid g1 = []" using assms(7) by (auto simp: known_uids_def getNodes_def)
  then have go: "GoSchedule uid \<in> set gos2" "lineage g2 uid = None"
    using RegisterLiveNodes_starts[of uid ks g1 report] assms(8) o(3) by auto
  let ?rr = "\<lparr>run_Uid = 0, run_Name = 0, run_Args = [], run_Kwargs = []\<rparr>"
  have fetch: "e_fetch e = Inl (StatusError NotFound ''function not found'')"
    using assms(10,13) by (simp add: client_sees_def FetchFunc_def)
  have "\<exists>w'. Run e ?rr w = (RDone (Return (None, Some (StatusError NotFound ''function not found''))), w')"
    using assms(11,12) fetch by (simp add: Run_def Run_follow_numeral Run_enter_def MAX_CONCURRENT_TASKS_def Let_def)
  then show ?thesis using go assms(9)
    by (cases best) (auto simp: empty_request_def gs_Schedule_def Let_def split: sum.split)
qed

theorem unknown_Get_ends_scheduler_witness:
  "\<exists>(g2 :: table GCSObjServer) rr err w'. run_go None (GoSchedule 5) g2 = [CallSchedule None] \<and>
     Run \<lparr>e_fetch = Inl (StatusError NotFound ''function not found''), e_python = (\<lambda>_. Inr []),
          e_store = Inr (status True), e_elapsed = 0\<rparr> rr new_worker = (RDone (Return (None, Some err)), w') \<and>
     fst (gs_Schedule ''node'' 50002 (Return 2, []) None (Inl err) empty_request) = Fatal (contact_failure 2 (Some err))"
proof -
  let ?g = "server_with Map.empty []" and ?rl = "\<lparr>rl_Uid = 5, rl_Requester = 2\<rparr>"
  let ?e = "\<lparr>e_fetch = Inl (StatusError NotFound ''function not found''), e_python = (\<lambda>_. Inr []),
          e_store = Inr (status True), e_elapsed = 0\<rparr>"
  obtain gos g1 where g1: "snd (RequestLocation table_driver 0 50000 (Some ''10.0.0.2:4711'') ?rl ?g) = (gos, g1)" by fastforce
  have "locs trows ?g 5 = {}" by (simp add: server_with_def locs_def)
  then have ks: "set [5] = known_uids g1"
    using tbl.RequestLocation_unknown[of ?g ?rl 0 50000 "''10.0.0.2:4711''"] g1 by (auto simp: known_uids_def server_with_def split: if_splits)
  obtain gos2 g2 where g2: "snd (RegisterLiveNodes [5] \<lparr>ln_LiveNodes = [2 \<mapsto> True]\<rparr> g1) = (gos2, g2)" by fastforce
  have "\<exists>rr err w'. GoSchedule 5 \<in> set gos2 \<and> run_go None (GoSchedule 5) g2 = [CallSchedule None] \<and>
      gcs_msg (CallSchedule None) = Some (MSchedule empty_request) \<and>
      GCallRun (node_address ''node'' (uint (2 :: u64)) 50002) rr
        \<in> set (snd (gs_Schedule ''node'' 50002 (Return 2, []) None (Inr (status True)) empty_request)) \<and>
      Run ?e rr new_worker = (RDone (Return (None, Some err)), w') \<and>
      fst (gs_Schedule ''node'' 50002 (Return 2, []) None (Inl err) empty_request) = Fatal (contact_failure 2 (Some err))"
    by (rule unknown_Get_ends_scheduler[OF tbl.sqlite_available_axioms \<open>locs trows ?g 5 = {}\<close> _ _ _ g1 ks g2, where ft = NewGCSFuncServer])
      (simp_all add: server_with_def NewGCSFuncServer_def new_worker_def client_sees_def FetchFunc_def)
  then show ?thesis by blast
qed

section \<open>Lost objects are generated again\<close>

text \<open>C9 Recovery: once the GCS has recorded the lineage of a task the local scheduler accepted, it
  keeps it through whatever it does afterwards, unless a registration under the same uid that passed its
  duplicate check before overlaps with this one. When the object is still known in memory (a node
  generates it, or its locations were not flushed since) and every node that memory lists as holding or
  generating it has missed its heartbeats for 400 ms, the next report of live nodes makes the GCS hand the
  lineage back to the global scheduler, which runs the same function with the same arguments under the
  same uid on the node it picks.\<close>

theorem lost_object_is_regenerated:
  assumes "ls_Schedule r st req ls = (Return (Some resp, err), CallRegisterLineage lin # calls, bg)"
    and "gcs_reach drv port (lineage_store lin g) gos g2"
    and "set ks = known_uids g2" "sresp_Uid resp \<in> known_uids g2"
    and "map_order nodes (gs_status gss)" "SendLiveNodes now nodes gss = [GCallRegisterLiveNodes report]"
    and "\<forall>n \<in> set (getNodes (sresp_Uid resp) g2). \<forall>h.
           gs_status gss n = Some h \<longrightarrow> 400000000 \<le> now n - timeReceived h"
    and "fst best = Return k"
  shows "\<exists>go \<in> set (fst (snd (RegisterLiveNodes ks report g2))).
    run_go None go (snd (snd (RegisterLiveNodes ks report g2))) = [CallSchedule (Some lin)] \<and>
    GCallRun (node_address prefix (uint k) wport)
      \<lparr>run_Uid = sresp_Uid resp, run_Name = sr_Name req, run_Args = sr_Args req, run_Kwargs = sr_Kwargs req\<rparr>
      \<in> set (snd (gs_Schedule prefix wport best None result lin))"
proof -
  let ?uid = "sresp_Uid resp"
  have lin: "lin = global_request ?uid req"
    using assms(1) by (auto simp: ls_Schedule_def Let_def split: if_splits sum.splits)
  then have "lineage (lineage_store lin g) ?uid = Some lin" by (simp add: lineage_store_def global_request_def)
  then have l2: "lineage g2 ?uid = Some lin" using gcs_reach_lineage[OF assms(2)] by blast
  have "ln_LiveNodes report = (\<lambda>n. map_option (live (now n)) (gs_status gss n))"
    using SendLiveNodes_map[OF assms(5), of now] assms(6) by simp
  then have dead: "\<forall>n \<in> set (getNodes ?uid g2). \<not> lookup_bool (ln_LiveNodes report) n"
    using assms(7) by (fastforce simp: lookup_bool_def live_def LIVE_NODE_TIMEOUT_def split: option.splits)
  have go: "GoSchedule ?uid \<in> set (fst (snd (RegisterLiveNodes ks report g2)))"
    using RegisterLiveNodes_starts(1)[OF _ dead] assms(3,4) by simp
  have "run_go None (GoSchedule ?uid) (snd (snd (RegisterLiveNodes ks report g2))) = [CallSchedule (Some lin)]"
    using l2 RegisterLiveNodes_starts(2)[OF _ dead, of ks] assms(3,4) by simp
  moreover have "GCallRun (node_address prefix (uint k) wport)
      \<lparr>run_Uid = ?uid, run_Name = sr_Name req, run_Args = sr_Args req, run_Kwargs = sr_Kwargs req\<rparr>
      \<in> set (snd (gs_Schedule prefix wport best None result lin))"
    using assms(8) lin by (cases best) (auto simp: gs_Schedule_def global_request_def Let_def split: sum.split)
  ultimately show ?thesis using go by blast
qed

abbreviation some_task :: ScheduleRequest where
  "some_task \<equiv> \<lparr>sr_Name = 1, sr_Args = [4], sr_Kwargs = [], sr_Uids = [], sr_NodeId = 0, sr_LocalityFlag = False\<rparr>"

text \<open>The object table after that task's lineage was recorded and node 3 began to generate it.\<close>

definition generating_table :: "table GCSObjServer" where
  "generating_table = snd (RegisterGenerating \<lparr>gen_Uid = 5, gen_NodeId = 3\<rparr>
     (lineage_store (global_request 5 some_task) (server_with Map.empty [])))"

theorem lost_object_is_regenerated_witness:
  "\<exists>report. SendLiveNodes (\<lambda>_. 0) [3, 1, 2] three_nodes = [GCallRegisterLiveNodes report] \<and>
     (\<exists>go \<in> set (fst (snd (RegisterLiveNodes [5] report generating_table))).
        run_go None go (snd (snd (RegisterLiveNodes [5] report generating_table))) =
          [CallSchedule (Some (global_request 5 some_task))])"
proof -
  let ?lin = "global_request 5 some_task"
  let ?g1 = "lineage_store ?lin (server_with Map.empty [])"
  let ?st = "Inr \<lparr>ws_NumRunningTasks = 0, ws_NumQueuedTasks = 0, ws_AverageRunningTime = Zero False\<rparr>"
  have five: "TruncateHighBit 5 = 5" by (rule TruncateHighBit_id) simp
  obtain bg where s: "ls_Schedule 5 ?st some_task \<lparr>ls_localNodeID = 3, ls_alive = True\<rparr> =
      (Return (Some \<lparr>sresp_Uid = 5\<rparr>, None), CallRegisterLineage ?lin # [CallWorkerStatus], bg)"
    by (simp add: ls_Schedule_def Let_def MAX_TASKS_def five)
  have reach: "gcs_reach table_driver 50000 ?g1 ([] @ []) generating_table"
    by (rule gcs_reach.step[OF gcs_reach.start, where op = "OpGenerating \<lparr>gen_Uid = 5, gen_NodeId = 3\<rparr>"])
      (simp_all add: generating_table_def)
  have known: "known_uids generating_table = {5}" "getNodes 5 generating_table = [3]"
    by (simp_all add: generating_table_def known_uids_def RegisterGenerating_def getNodes_def
        lineage_store_def)
  have nodes: "map_order [3, 1, 2] (gs_status three_nodes)" by (auto simp: map_order_def three_nodes_def)
  then obtain report where rep: "SendLiveNodes (\<lambda>_. 0) [3, 1, 2] three_nodes = [GCallRegisterLiveNodes report]"
    using SendLiveNodes_map by blast
  from lost_object_is_regenerated[OF s reach _ _ nodes rep, of "[5]" "(Return 2, [])" 2] rep known
  show ?thesis by (auto simp: three_nodes_def)
qed

end
